theory Spec2Isabelle
  imports Complex_Main "HOL-Library.Monad_Syntax"
begin

section \<open>Data model (src/lib/checkers-logic.ts, lines 1-22)\<close>

text \<open>
  \<^verbatim>\<open>PieceType = 'white' | 'black' | null\<close>: the source type has three values, and a
  \<^verbatim>\<open>Piece\<close> object may carry the type \<^verbatim>\<open>null\<close>. \<^verbatim>\<open>Position\<close> components are JavaScript
  numbers; the engine only ever computes with integers, so they are \<open>int\<close> here.
  The optional field \<^verbatim>\<open>captured?\<close> of a move is an option.
\<close>

datatype PieceType = White | Black | Null

record Piece =
  type :: PieceType
  isKing :: bool

record Position =
  row :: int
  col :: int

record Move =
  "from" :: Position
  to :: Position
  captured :: "Position list option"

text \<open>
  \<^verbatim>\<open>Board = (Piece | null)[][]\<close>: an array of row arrays. A cell is \<open>None\<close> for \<^verbatim>\<open>null\<close>
  (and for \<^verbatim>\<open>undefined\<close>, which the code never distinguishes from \<^verbatim>\<open>null\<close>: cells are
  only tested for truthiness or read through \<^verbatim>\<open>?.\<close>).
\<close>

type_synonym Board = "Piece option list list"

definition BOARD_SIZE :: int where
  "BOARD_SIZE = 8"

text \<open>
  The only runtime error the engine can raise is the \<^verbatim>\<open>TypeError\<close> of reading or writing a
  property of \<^verbatim>\<open>undefined\<close>. A computation that may raise it returns an option, \<open>None\<close>
  being the raised \<^verbatim>\<open>TypeError\<close>.
\<close>

type_synonym 'a throws = "'a option"

text \<open>
  \<^verbatim>\<open>board[r][c]\<close> as an rvalue. When \<open>r\<close> is no index of the outer array, \<^verbatim>\<open>board[r]\<close> is
  \<^verbatim>\<open>undefined\<close> and the second subscript raises. When \<open>r\<close> is an index and \<open>c\<close> is no index
  of that row, the result is \<^verbatim>\<open>undefined\<close>, a falsy cell.
\<close>

definition read_cell :: "Board \<Rightarrow> int \<Rightarrow> int \<Rightarrow> Piece option throws" where
  "read_cell board r c =
     (if 0 \<le> r \<and> r < int (length board)
      then Some (let line = board ! nat r
                 in if 0 \<le> c \<and> c < int (length line) then line ! nat c else None)
      else None)"

text \<open>The grid the specification speaks of: \<open>BOARD_SIZE\<close> rows of \<open>BOARD_SIZE\<close> cells.\<close>

definition wf_board :: "Board \<Rightarrow> bool" where
  "wf_board board \<longleftrightarrow>
     length board = nat BOARD_SIZE \<and> list_all (\<lambda>line. length line = nat BOARD_SIZE) board"

text \<open>The values a loop counter \<^verbatim>\<open>for (let i = 0; i < BOARD_SIZE; i++)\<close> takes, in order.\<close>

definition indices :: "int list" where
  "indices = map int [0..<nat BOARD_SIZE]"

text \<open>The squares visited by the nested row/column loops, in row-major order.\<close>

definition squares :: "(int \<times> int) list" where
  "squares = concat (map (\<lambda>r. map (\<lambda>c. (r, c)) indices) indices)"

section \<open>Move generator (lines 44-111, 165-167)\<close>

definition isValidPosition :: "int \<Rightarrow> int \<Rightarrow> bool" where
  "isValidPosition r c \<longleftrightarrow> r \<ge> 0 \<and> r < BOARD_SIZE \<and> c \<ge> 0 \<and> c < BOARD_SIZE"

definition directions :: "Piece \<Rightarrow> (int \<times> int) list" where
  "directions piece =
     (if type piece = White \<or> isKing piece then [(-1, -1), (-1, 1)] else []) @
     (if type piece = Black \<or> isKing piece then [(1, -1), (1, 1)] else [])"

text \<open>
  One iteration of the loop over the directions (lines 60-83). The pair is the state of the
  two local arrays \<^verbatim>\<open>moves\<close> and \<^verbatim>\<open>captures\<close>.
\<close>

definition tryDirection ::
  "Board \<Rightarrow> Position \<Rightarrow> Piece \<Rightarrow> int \<times> int \<Rightarrow> Move list \<times> Move list
     \<Rightarrow> (Move list \<times> Move list) throws" where
  "tryDirection board position piece d acc =
     (let dRow = fst d; dCol = snd d; moves = fst acc; captures = snd acc;
          newRow = row position + dRow; newCol = col position + dCol
      in if isValidPosition newRow newCol then
           do {
             target \<leftarrow> read_cell board newRow newCol;
             case target of
               None \<Rightarrow>
                 Some (moves @ [\<lparr>from = position, to = \<lparr>row = newRow, col = newCol\<rparr>,
                                 captured = None\<rparr>], captures)
             | Some other \<Rightarrow>
                 if type other \<noteq> type piece then
                   (let jumpRow = newRow + dRow; jumpCol = newCol + dCol
                    in if isValidPosition jumpRow jumpCol then
                         do {
                           landing \<leftarrow> read_cell board jumpRow jumpCol;
                           if landing = None then
                             Some (moves,
                                   captures @ [\<lparr>from = position,
                                                to = \<lparr>row = jumpRow, col = jumpCol\<rparr>,
                                                captured = Some [\<lparr>row = newRow, col = newCol\<rparr>]\<rparr>])
                           else Some (moves, captures)
                         }
                       else Some (moves, captures))
                 else Some (moves, captures)
           }
         else Some (moves, captures))"

fun scanDirections ::
  "Board \<Rightarrow> Position \<Rightarrow> Piece \<Rightarrow> (int \<times> int) list \<Rightarrow> Move list \<times> Move list
     \<Rightarrow> (Move list \<times> Move list) throws" where
  "scanDirections board position piece [] acc = Some acc"
| "scanDirections board position piece (d # rest) acc =
     do {
       acc' \<leftarrow> tryDirection board position piece d acc;
       scanDirections board position piece rest acc'
     }"

definition getValidMoves :: "Board \<Rightarrow> Position \<Rightarrow> Move list throws" where
  "getValidMoves board position =
     do {
       cell \<leftarrow> read_cell board (row position) (col position);
       case cell of
         None \<Rightarrow> Some []
       | Some piece \<Rightarrow>
           do {
             acc \<leftarrow> scanDirections board position piece (directions piece) ([], []);
             Some (if length (snd acc) > 0 then snd acc else fst acc)
           }
     }"

text \<open>\<^verbatim>\<open>move.captured && move.captured.length > 0\<close>\<close>

definition isCapture :: "Move \<Rightarrow> bool" where
  "isCapture move = (case captured move of None \<Rightarrow> False | Some cs \<Rightarrow> length cs > 0)"

text \<open>The loop \<^verbatim>\<open>for (const move of pieceMoves)\<close> of lines 98-104.\<close>

fun sortPieceMoves :: "Move list \<Rightarrow> Move list \<times> Move list \<Rightarrow> Move list \<times> Move list" where
  "sortPieceMoves [] acc = acc"
| "sortPieceMoves (move # rest) acc =
     sortPieceMoves rest
       (if isCapture move then (fst acc, snd acc @ [move]) else (fst acc @ [move], snd acc))"

text \<open>
  The nested loops of lines 93-107 over the squares still to visit. \<^verbatim>\<open>piece?.type\<close> is
  \<^verbatim>\<open>undefined\<close> on an empty cell, which is \<^verbatim>\<open>===\<close> to no \<^verbatim>\<open>PieceType\<close>.
\<close>

fun collectMoves ::
  "Board \<Rightarrow> PieceType \<Rightarrow> (int \<times> int) list \<Rightarrow> Move list \<times> Move list
     \<Rightarrow> (Move list \<times> Move list) throws" where
  "collectMoves board playerType [] acc = Some acc"
| "collectMoves board playerType (sq # rest) acc =
     do {
       cell \<leftarrow> read_cell board (fst sq) (snd sq);
       if (case cell of None \<Rightarrow> False | Some piece \<Rightarrow> type piece = playerType) then
         do {
           pieceMoves \<leftarrow> getValidMoves board \<lparr>row = fst sq, col = snd sq\<rparr>;
           collectMoves board playerType rest (sortPieceMoves pieceMoves acc)
         }
       else collectMoves board playerType rest acc
     }"

definition getAllValidMoves :: "Board \<Rightarrow> PieceType \<Rightarrow> Move list throws" where
  "getAllValidMoves board playerType =
     do {
       acc \<leftarrow> collectMoves board playerType squares ([], []);
       Some (if length (snd acc) > 0 then snd acc else fst acc)
     }"

text \<open>
  The raw candidate set of a side, in the words of the specification: the union of the
  per-piece move lists over every square (in board order) that holds a piece of the side.
\<close>

fun candidateMoves :: "Board \<Rightarrow> PieceType \<Rightarrow> (int \<times> int) list \<Rightarrow> Move list throws" where
  "candidateMoves board side [] = Some []"
| "candidateMoves board side (sq # rest) =
     do {
       cell \<leftarrow> read_cell board (fst sq) (snd sq);
       here \<leftarrow> (if (case cell of None \<Rightarrow> False | Some piece \<Rightarrow> type piece = side)
                then getValidMoves board \<lparr>row = fst sq, col = snd sq\<rparr> else Some []);
       further \<leftarrow> candidateMoves board side rest;
       Some (here @ further)
     }"

section \<open>Initial position (lines 24-42)\<close>

text \<open>
  The body of the inner loop. The array was created two lines earlier with \<open>BOARD_SIZE\<close> rows
  of \<open>BOARD_SIZE\<close> cells and both subscripts are loop counters below \<open>BOARD_SIZE\<close>, so the
  assignment is an in-range element update.
\<close>

definition placeInitial :: "Board \<Rightarrow> int \<times> int \<Rightarrow> Board" where
  "placeInitial board sq =
     (let r = fst sq; c = snd sq
      in if (r + c) mod 2 = 1 then
           if r < 3 then
             board[nat r := (board ! nat r)[nat c := Some \<lparr>type = Black, isKing = False\<rparr>]]
           else if r > 4 then
             board[nat r := (board ! nat r)[nat c := Some \<lparr>type = White, isKing = False\<rparr>]]
           else board
         else board)"

definition createInitialBoard :: Board where
  "createInitialBoard =
     foldl placeInitial (replicate (nat BOARD_SIZE) (replicate (nat BOARD_SIZE) None)) squares"

section \<open>Move applicator (lines 113-138)\<close>

text \<open>
  \<^verbatim>\<open>line[c] = v\<close> on a row array. A subscript at or beyond the length extends the array, the
  elements in between being holes, which read as \<^verbatim>\<open>undefined\<close>. A negative subscript names a
  property that is no element of the array: the model tracks elements only, so the write
  changes no element (and \<open>read_cell\<close> at a negative column gives a falsy cell), where
  JavaScript keeps the value under that property name. The two differ only for a move with
  a square off the grid; every statement below about \<open>makeMove\<close> is about moves whose squares
  are squares of the grid.
\<close>

definition write_elem :: "Piece option list \<Rightarrow> int \<Rightarrow> Piece option \<Rightarrow> Piece option list" where
  "write_elem line c v =
     (if c < 0 then line
      else if c < int (length line) then line[nat c := v]
      else line @ replicate (nat c - length line) None @ [v])"

text \<open>\<^verbatim>\<open>board[r][c] = v\<close>: raises when \<^verbatim>\<open>board[r]\<close> is \<^verbatim>\<open>undefined\<close>.\<close>

definition write_cell :: "Board \<Rightarrow> int \<Rightarrow> int \<Rightarrow> Piece option \<Rightarrow> Board throws" where
  "write_cell board r c v =
     (if 0 \<le> r \<and> r < int (length board)
      then Some (board[nat r := write_elem (board ! nat r) c v])
      else None)"

text \<open>\<^verbatim>\<open>cell ? { ...cell } : null\<close>: a fresh object with the fields of \<^verbatim>\<open>cell\<close>.\<close>

definition copyCell :: "Piece option \<Rightarrow> Piece option" where
  "copyCell cell = (case cell of None \<Rightarrow> None | Some piece \<Rightarrow> Some \<lparr>type = type piece, isKing = isKing piece\<rparr>)"

definition copyBoard :: "Board \<Rightarrow> Board" where
  "copyBoard board = map (\<lambda>line. map copyCell line) board"

fun clearCaptured :: "Board \<Rightarrow> Position list \<Rightarrow> Board throws" where
  "clearCaptured newBoard [] = Some newBoard"
| "clearCaptured newBoard (pos # rest) =
     do {
       cleared \<leftarrow> write_cell newBoard (row pos) (col pos) None;
       clearCaptured cleared rest
     }"

text \<open>
  The value computed by \<^verbatim>\<open>makeMove\<close>. A \<^verbatim>\<open>TypeError\<close> leaves no trace: every assignment is
  to the local copy.
\<close>

definition makeMove :: "Board \<Rightarrow> Move \<Rightarrow> Board throws" where
  "makeMove board move =
     (let newBoard = copyBoard board
      in do {
           cell \<leftarrow> read_cell newBoard (row (from move)) (col (from move));
           case cell of
             None \<Rightarrow> Some newBoard
           | Some piece \<Rightarrow>
               do {
                 placed \<leftarrow> write_cell newBoard (row (to move)) (col (to move)) (Some piece);
                 vacated \<leftarrow> write_cell placed (row (from move)) (col (from move)) None;
                 cleared \<leftarrow> (case captured move of
                               None \<Rightarrow> Some vacated
                             | Some cs \<Rightarrow> clearCaptured vacated cs);
                 if type piece = White \<and> row (to move) = 0 then
                   write_cell cleared (row (to move)) (col (to move))
                     (Some (piece\<lparr>isKing := True\<rparr>))
                 else if type piece = Black \<and> row (to move) = BOARD_SIZE - 1 then
                   write_cell cleared (row (to move)) (col (to move))
                     (Some (piece\<lparr>isKing := True\<rparr>))
                 else Some cleared
               }
         })"

subsection \<open>The same function over a store of row arrays\<close>

text \<open>
  Whether \<^verbatim>\<open>makeMove\<close> changes its argument depends on which arrays its assignments reach,
  so here the row arrays live in a store: an address is an index into the store, allocation
  appends, an assignment updates the array at an address. The outer array of a board is
  the list of the addresses of its rows; no statement of the engine assigns to an outer
  array or to a field of a piece object, so outer arrays and pieces are values.
\<close>

type_synonym RowStore = "Piece option list list"
type_synonym BoardRef = "nat list"

text \<open>The grid a board reference denotes in a store.\<close>

definition board_at :: "RowStore \<Rightarrow> BoardRef \<Rightarrow> Board" where
  "board_at store bref = map (\<lambda>a. store ! a) bref"

definition valid_ref :: "RowStore \<Rightarrow> BoardRef \<Rightarrow> bool" where
  "valid_ref store bref \<longleftrightarrow> list_all (\<lambda>a. a < length store) bref"

text \<open>\<^verbatim>\<open>board.map((row) => row.map(...))\<close>: one new row array per row, and a new outer array.\<close>

definition copyBoardH :: "RowStore \<Rightarrow> BoardRef \<Rightarrow> RowStore \<times> BoardRef" where
  "copyBoardH store bref =
     (store @ map (\<lambda>a. map copyCell (store ! a)) bref,
      [length store ..< length store + length bref])"

definition write_cellH :: "RowStore \<Rightarrow> BoardRef \<Rightarrow> int \<Rightarrow> int \<Rightarrow> Piece option \<Rightarrow> RowStore throws" where
  "write_cellH store bref r c v =
     (if 0 \<le> r \<and> r < int (length bref)
      then Some (store[bref ! nat r := write_elem (store ! (bref ! nat r)) c v])
      else None)"

fun clearCapturedH :: "RowStore \<Rightarrow> BoardRef \<Rightarrow> Position list \<Rightarrow> RowStore throws" where
  "clearCapturedH store newBoard [] = Some store"
| "clearCapturedH store newBoard (pos # rest) =
     do {
       cleared \<leftarrow> write_cellH store newBoard (row pos) (col pos) None;
       clearCapturedH cleared newBoard rest
     }"

text \<open>
  The result is the store after the run, paired with the reference \<^verbatim>\<open>newBoard\<close> that every
  \<^verbatim>\<open>return\<close> of the function hands back.
\<close>

definition makeMoveH :: "RowStore \<Rightarrow> BoardRef \<Rightarrow> Move \<Rightarrow> (RowStore \<times> BoardRef) throws" where
  "makeMoveH store board move =
     (let copied = copyBoardH store board; store0 = fst copied; newBoard = snd copied
      in map_option (\<lambda>final. (final, newBoard))
           (do {
              cell \<leftarrow> read_cell (board_at store0 newBoard) (row (from move)) (col (from move));
              case cell of
                None \<Rightarrow> Some store0
              | Some piece \<Rightarrow>
                  do {
                    placed \<leftarrow> write_cellH store0 newBoard (row (to move)) (col (to move)) (Some piece);
                    vacated \<leftarrow> write_cellH placed newBoard (row (from move)) (col (from move)) None;
                    cleared \<leftarrow> (case captured move of
                                  None \<Rightarrow> Some vacated
                                | Some cs \<Rightarrow> clearCapturedH vacated newBoard cs);
                    if type piece = White \<and> row (to move) = 0 then
                      write_cellH cleared newBoard (row (to move)) (col (to move))
                        (Some (piece\<lparr>isKing := True\<rparr>))
                    else if type piece = Black \<and> row (to move) = BOARD_SIZE - 1 then
                      write_cellH cleared newBoard (row (to move)) (col (to move))
                        (Some (piece\<lparr>isKing := True\<rparr>))
                    else Some cleared
                  }
            }))"

text \<open>
  A reference whose rows are pairwise distinct arrays allocated at or after address \<open>n\<close>, and
  a run on the store that computes the value \<open>y\<close> while leaving the arrays below the length
  of \<open>store\<close> as they are in \<open>store\<close>.
\<close>

definition freshRef :: "nat \<Rightarrow> RowStore \<Rightarrow> BoardRef \<Rightarrow> bool" where
  "freshRef n store bref \<longleftrightarrow> distinct bref \<and> list_all (\<lambda>a. n \<le> a \<and> a < length store) bref"

definition simulates :: "RowStore \<Rightarrow> BoardRef \<Rightarrow> RowStore throws \<Rightarrow> Board throws \<Rightarrow> bool" where
  "simulates store bref x y \<longleftrightarrow>
     (case x of
        None \<Rightarrow> y = None
      | Some s \<Rightarrow> y = Some (board_at s bref) \<and> freshRef (length store) s bref
                  \<and> take (length store) s = store)"

section \<open>Terminal detector (lines 140-163)\<close>

text \<open>The counting loops; the pair is \<^verbatim>\<open>(whiteCount, blackCount)\<close>.\<close>

fun countPieces :: "Board \<Rightarrow> (int \<times> int) list \<Rightarrow> nat \<times> nat \<Rightarrow> (nat \<times> nat) throws" where
  "countPieces board [] counts = Some counts"
| "countPieces board (sq # rest) counts =
     do {
       cell \<leftarrow> read_cell board (fst sq) (snd sq);
       countPieces board rest
         (let whiteCount = (if (case cell of None \<Rightarrow> False | Some piece \<Rightarrow> type piece = White)
                            then fst counts + 1 else fst counts);
              blackCount = (if (case cell of None \<Rightarrow> False | Some piece \<Rightarrow> type piece = Black)
                            then snd counts + 1 else snd counts)
          in (whiteCount, blackCount))
     }"

definition checkWinner :: "Board \<Rightarrow> PieceType throws" where
  "checkWinner board =
     do {
       counts \<leftarrow> countPieces board squares (0, 0);
       if fst counts = 0 then Some Black
       else if snd counts = 0 then Some White
       else
         do {
           whiteMoves \<leftarrow> getAllValidMoves board White;
           blackMoves \<leftarrow> getAllValidMoves board Black;
           if length whiteMoves = 0 \<and> length blackMoves > 0 then Some Black
           else if length blackMoves = 0 \<and> length whiteMoves > 0 then Some White
           else Some Null
         }
     }"

section \<open>Evaluators (lines 237-260, 304-324)\<close>

text \<open>
  \<^verbatim>\<open>evaluateMove\<close> subtracts \<open>3.5\<close> from integer coordinates: the values are multiples of one
  half, which JavaScript numbers represent exactly, so the arithmetic is that of \<open>real\<close>.
\<close>

definition evaluateMove :: "Board \<Rightarrow> Move \<Rightarrow> real" where
  "evaluateMove board move =
     (let score = 0;
          score = (case captured move of
                     None \<Rightarrow> score
                   | Some cs \<Rightarrow> score + real (length cs) * 100);
          score = (if row (to move) = BOARD_SIZE - 1 then score + 50 else score);
          centerDistance = \<bar>real_of_int (col (to move)) - 3.5\<bar> + \<bar>real_of_int (row (to move)) - 3.5\<bar>;
          score = score + (7 - centerDistance) * 5;
          score = (if col (to move) = 0 \<or> col (to move) = 7 then score - 10 else score)
      in score)"

fun sumPieces :: "Board \<Rightarrow> (int \<times> int) list \<Rightarrow> int \<Rightarrow> int throws" where
  "sumPieces board [] score = Some score"
| "sumPieces board (sq # rest) score =
     do {
       cell \<leftarrow> read_cell board (fst sq) (snd sq);
       case cell of
         None \<Rightarrow> sumPieces board rest score
       | Some piece \<Rightarrow>
           (let pieceValue = (if isKing piece then 15 else 10);
                positionBonus = (if isKing piece then 0
                                 else if type piece = Black then fst sq
                                 else BOARD_SIZE - 1 - fst sq)
            in if type piece = Black then sumPieces board rest (score + (pieceValue + positionBonus))
               else sumPieces board rest (score - (pieceValue + positionBonus)))
     }"

definition evaluateBoard :: "Board \<Rightarrow> int throws" where
  "evaluateBoard board = sumPieces board squares 0"

section \<open>Search engine (lines 262-302)\<close>

text \<open>
  The scores of the search are integers and the two infinities that initialise the running
  best value and the window.
\<close>

datatype number = NegInfinity | Finite int | PosInfinity

fun number_le :: "number \<Rightarrow> number \<Rightarrow> bool" where
  "number_le NegInfinity y = True"
| "number_le (Finite a) NegInfinity = False"
| "number_le (Finite a) (Finite b) = (a \<le> b)"
| "number_le (Finite a) PosInfinity = True"
| "number_le PosInfinity PosInfinity = True"
| "number_le PosInfinity y = False"

instantiation number :: linorder
begin

definition less_eq_number :: "number \<Rightarrow> number \<Rightarrow> bool" where
  "less_eq_number x y \<longleftrightarrow> number_le x y"

definition less_number :: "number \<Rightarrow> number \<Rightarrow> bool" where
  "less_number x y \<longleftrightarrow> number_le x y \<and> \<not> number_le y x"

instance
proof
  fix x y z :: number
  show "(x < y) = (x \<le> y \<and> \<not> y \<le> x)"
    by (simp add: less_number_def less_eq_number_def)
  show "x \<le> x"
    by (cases x) (simp_all add: less_eq_number_def)
  show "x \<le> y \<Longrightarrow> y \<le> z \<Longrightarrow> x \<le> z"
    by (cases x; cases y; cases z) (simp_all add: less_eq_number_def)
  show "x \<le> y \<Longrightarrow> y \<le> x \<Longrightarrow> x = y"
    by (cases x; cases y) (simp_all add: less_eq_number_def)
  show "x \<le> y \<or> y \<le> x"
    by (cases x; cases y) (auto simp: less_eq_number_def)
qed

end

text \<open>
  The loop of the maximizing branch over the moves still to try (lines 283-289);
  \<open>recurse\<close> is the recursive call at \<^verbatim>\<open>depth - 1\<close> with the flag \<^verbatim>\<open>false\<close>.
\<close>

fun maxLoop ::
  "(Board \<Rightarrow> number \<Rightarrow> number \<Rightarrow> number throws) \<Rightarrow> Board \<Rightarrow> Move list
     \<Rightarrow> number \<Rightarrow> number \<Rightarrow> number \<Rightarrow> number throws" where
  "maxLoop recurse board [] maxEval alpha beta = Some maxEval"
| "maxLoop recurse board (move # rest) maxEval alpha beta =
     do {
       newBoard \<leftarrow> makeMove board move;
       evalScore \<leftarrow> recurse newBoard alpha beta;
       let maxEval' = max maxEval evalScore;
           alpha' = max alpha evalScore
       in if beta \<le> alpha' then Some maxEval'
          else maxLoop recurse board rest maxEval' alpha' beta
     }"

text \<open>The loop of the minimizing branch (lines 293-299).\<close>

fun minLoop ::
  "(Board \<Rightarrow> number \<Rightarrow> number \<Rightarrow> number throws) \<Rightarrow> Board \<Rightarrow> Move list
     \<Rightarrow> number \<Rightarrow> number \<Rightarrow> number \<Rightarrow> number throws" where
  "minLoop recurse board [] minEval alpha beta = Some minEval"
| "minLoop recurse board (move # rest) minEval alpha beta =
     do {
       newBoard \<leftarrow> makeMove board move;
       evalScore \<leftarrow> recurse newBoard alpha beta;
       let minEval' = min minEval evalScore;
           beta' = min beta evalScore
       in if beta' \<le> alpha then Some minEval'
          else minLoop recurse board rest minEval' alpha beta'
     }"

text \<open>
  \<^verbatim>\<open>minimax\<close>, by recursion on the depth, a natural number: the code counts it down to
  the test \<^verbatim>\<open>depth === 0\<close>. The two equations share lines 269-271.
\<close>

fun minimax :: "nat \<Rightarrow> Board \<Rightarrow> number \<Rightarrow> number \<Rightarrow> bool \<Rightarrow> number throws" where
  "minimax 0 board alpha beta isMaximizing =
     do {
       winner \<leftarrow> checkWinner board;
       if winner = Black then Some (Finite 1000)
       else if winner = White then Some (Finite (- 1000))
       else map_option Finite (evaluateBoard board)
     }"
| "minimax (Suc depth) board alpha beta isMaximizing =
     do {
       winner \<leftarrow> checkWinner board;
       if winner = Black then Some (Finite 1000)
       else if winner = White then Some (Finite (- 1000))
       else
         do {
           moves \<leftarrow> getAllValidMoves board (if isMaximizing then Black else White);
           if length moves = 0 then Some (if isMaximizing then Finite (- 1000) else Finite 1000)
           else if isMaximizing then
             maxLoop (\<lambda>newBoard alpha beta. minimax depth newBoard alpha beta False)
               board moves NegInfinity alpha beta
           else
             minLoop (\<lambda>newBoard alpha beta. minimax depth newBoard alpha beta True)
               board moves PosInfinity alpha beta
         }
     }"

subsection \<open>The exhaustive search of the specification\<close>

text \<open>
  The reference the specification compares \<^verbatim>\<open>minimax\<close> with: the same terminal checks, leaf
  evaluation, move generator and applicator, every move expanded, no window.
\<close>

fun maxAll :: "(Board \<Rightarrow> number throws) \<Rightarrow> Board \<Rightarrow> Move list \<Rightarrow> number \<Rightarrow> number throws" where
  "maxAll recurse board [] best = Some best"
| "maxAll recurse board (move # rest) best =
     do {
       newBoard \<leftarrow> makeMove board move;
       evalScore \<leftarrow> recurse newBoard;
       maxAll recurse board rest (max best evalScore)
     }"

fun minAll :: "(Board \<Rightarrow> number throws) \<Rightarrow> Board \<Rightarrow> Move list \<Rightarrow> number \<Rightarrow> number throws" where
  "minAll recurse board [] best = Some best"
| "minAll recurse board (move # rest) best =
     do {
       newBoard \<leftarrow> makeMove board move;
       evalScore \<leftarrow> recurse newBoard;
       minAll recurse board rest (min best evalScore)
     }"

fun exhaustiveMinimax :: "nat \<Rightarrow> Board \<Rightarrow> bool \<Rightarrow> number throws" where
  "exhaustiveMinimax 0 board isMaximizing =
     do {
       winner \<leftarrow> checkWinner board;
       if winner = Black then Some (Finite 1000)
       else if winner = White then Some (Finite (- 1000))
       else map_option Finite (evaluateBoard board)
     }"
| "exhaustiveMinimax (Suc depth) board isMaximizing =
     do {
       winner \<leftarrow> checkWinner board;
       if winner = Black then Some (Finite 1000)
       else if winner = White then Some (Finite (- 1000))
       else
         do {
           moves \<leftarrow> getAllValidMoves board (if isMaximizing then Black else White);
           if length moves = 0 then Some (if isMaximizing then Finite (- 1000) else Finite 1000)
           else if isMaximizing then
             maxAll (\<lambda>newBoard. exhaustiveMinimax depth newBoard False) board moves NegInfinity
           else
             minAll (\<lambda>newBoard. exhaustiveMinimax depth newBoard True) board moves PosInfinity
         }
     }"

section \<open>Difficulty policy (lines 170-235)\<close>

text \<open>
  \<^verbatim>\<open>xs[i]\<close> as an rvalue on an array of moves: \<^verbatim>\<open>undefined\<close> (here \<open>None\<close>) outside the array.
\<close>

definition elementAt :: "'a list \<Rightarrow> int \<Rightarrow> 'a option" where
  "elementAt xs i = (if 0 \<le> i \<and> i < int (length xs) then Some (xs ! nat i) else None)"

text \<open>
  \<^verbatim>\<open>Math.random()\<close> is called at most once on every path through \<^verbatim>\<open>getBotMove\<close>; the
  number it returns is the parameter \<open>rnd\<close>, which the library promises to lie in \<open>[0, 1)\<close>.
  The product with the length is taken in \<open>real\<close>.
\<close>

definition randomIndex :: "real \<Rightarrow> 'a list \<Rightarrow> int" where
  "randomIndex rnd xs = \<lfloor>rnd * real (length xs)\<rfloor>"

definition getRandomMove :: "Move list \<Rightarrow> real \<Rightarrow> Move option" where
  "getRandomMove moves rnd = elementAt moves (randomIndex rnd moves)"

definition getBasicMove :: "Board \<Rightarrow> Move list \<Rightarrow> real \<Rightarrow> Move option" where
  "getBasicMove board moves rnd =
     (let captures = filter isCapture moves
      in if length captures > 0 then elementAt captures (randomIndex rnd captures)
         else
           (let kingMoves = filter (\<lambda>m. row (to m) = BOARD_SIZE - 1) moves
            in if length kingMoves > 0 then elementAt kingMoves (randomIndex rnd kingMoves)
               else getRandomMove moves rnd))"

text \<open>
  \<^verbatim>\<open>sort\<close> with the comparator \<^verbatim>\<open>b.score - a.score\<close> is a stable sort by descending score, as
  \<open>sort_key\<close> on the negated score is. Reading \<^verbatim>\<open>.move\<close> of \<^verbatim>\<open>undefined\<close> raises.
\<close>

definition getIntermediateMove :: "Board \<Rightarrow> Move list \<Rightarrow> real \<Rightarrow> Move throws" where
  "getIntermediateMove board moves rnd =
     (let scoredMoves = map (\<lambda>move. (move, evaluateMove board move)) moves;
          sorted = sort_key (\<lambda>sm. - snd sm) scoredMoves;
          topMoves = take (min 3 (length sorted)) sorted
      in case elementAt topMoves (randomIndex rnd topMoves) of
           None \<Rightarrow> None
         | Some sm \<Rightarrow> Some (fst sm))"

fun bestMoveLoop ::
  "Board \<Rightarrow> nat \<Rightarrow> Move list \<Rightarrow> Move option \<Rightarrow> number \<Rightarrow> Move option throws" where
  "bestMoveLoop board depth [] bestMove bestScore = Some bestMove"
| "bestMoveLoop board depth (move # rest) bestMove bestScore =
     do {
       newBoard \<leftarrow> makeMove board move;
       score \<leftarrow> minimax (depth - 1) newBoard NegInfinity PosInfinity False;
       if score > bestScore then bestMoveLoop board depth rest (Some move) score
       else bestMoveLoop board depth rest bestMove bestScore
     }"

definition getAdvancedMove :: "Board \<Rightarrow> Move list \<Rightarrow> int \<Rightarrow> Move option throws" where
  "getAdvancedMove board moves difficulty =
     (let depth = (if difficulty \<ge> 1600 then 4 else 3)
      in bestMoveLoop board depth moves (elementAt moves 0) NegInfinity)"

definition getBotMove :: "Board \<Rightarrow> int \<Rightarrow> real \<Rightarrow> Move option throws" where
  "getBotMove board difficulty rnd =
     do {
       moves \<leftarrow> getAllValidMoves board Black;
       if length moves = 0 then Some None
       else if difficulty < 400 then Some (getRandomMove moves rnd)
       else if difficulty < 800 then Some (getBasicMove board moves rnd)
       else if difficulty < 1200 then map_option Some (getIntermediateMove board moves rnd)
       else getAdvancedMove board moves difficulty
     }"

section \<open>Notions used in the statements\<close>

text \<open>A cell holding a piece of a side, and the number of such cells on a board.\<close>

definition holds :: "PieceType \<Rightarrow> Piece option \<Rightarrow> bool" where
  "holds side cell = (case cell of None \<Rightarrow> False | Some piece \<Rightarrow> type piece = side)"

definition pieceCount :: "Board \<Rightarrow> PieceType \<Rightarrow> nat" where
  "pieceCount board side = length (filter (holds side) (concat board))"

text \<open>A square of the grid, and the captured squares of a move (none when the field is absent).\<close>

definition onBoard :: "Position \<Rightarrow> bool" where
  "onBoard pos = isValidPosition (row pos) (col pos)"

definition capturedSquares :: "Move \<Rightarrow> Position list" where
  "capturedSquares move = (case captured move of None \<Rightarrow> [] | Some cs \<Rightarrow> cs)"

text \<open>The condition under which lines 131-135 replace the moved piece by a king.\<close>

definition promotes :: "Piece \<Rightarrow> Move \<Rightarrow> bool" where
  "promotes piece move \<longleftrightarrow>
     type piece = White \<and> row (to move) = 0 \<or> type piece = Black \<and> row (to move) = BOARD_SIZE - 1"

text \<open>The far rank of a side, as lines 131 and 133 have it.\<close>

definition farRank :: "PieceType \<Rightarrow> int" where
  "farRank side = (if side = Black then BOARD_SIZE - 1 else 0)"

text \<open>
  The shape of a move the generator builds for the piece on \<open>position\<close>: it starts there, ends
  on another square of the grid with the same parity of row plus column, and its captured
  squares are on the grid and differ from its destination.
\<close>

definition regular :: "Position \<Rightarrow> Move \<Rightarrow> bool" where
  "regular position move \<longleftrightarrow>
     from move = position \<and> onBoard (to move) \<and> list_all onBoard (capturedSquares move)
     \<and> to move \<noteq> position \<and> to move \<notin> set (capturedSquares move)
     \<and> (row (to move) + col (to move)) mod 2 = (row position + col position) mod 2"

text \<open>Every occupied square of the grid is dark: its row plus column is odd.\<close>

definition darkOnly :: "Board \<Rightarrow> bool" where
  "darkOnly board =
     list_all (\<lambda>sq. case read_cell board (fst sq) (snd sq) of
                      Some (Some piece) \<Rightarrow> (fst sq + snd sq) mod 2 = 1
                    | _ \<Rightarrow> True) squares"

text \<open>
  What a search with the window \<open>(alpha, beta)\<close> promises about the score it found, given the
  exact score: a score at or below \<open>alpha\<close> is an upper bound of the exact one, a score at or
  above \<open>beta\<close> a lower bound, and a score strictly inside the window is exact.
\<close>

definition agrees :: "number \<Rightarrow> number \<Rightarrow> number \<Rightarrow> number \<Rightarrow> bool" where
  "agrees alpha beta exact found \<longleftrightarrow>
     (found \<le> alpha \<longrightarrow> exact \<le> found) \<and> (beta \<le> found \<longrightarrow> found \<le> exact)
     \<and> (alpha < found \<and> found < beta \<longrightarrow> found = exact)"

section \<open>Concrete boards used in examples\<close>

definition man :: "PieceType \<Rightarrow> Piece option" where
  "man side = Some \<lparr>type = side, isKing = False\<rparr>"

definition emptyLine :: "Piece option list" where
  "emptyLine = [None, None, None, None, None, None, None, None]"

text \<open>A lone white man on square (1, 2), one step from its far rank.\<close>

definition loneWhiteBoard :: Board where
  "loneWhiteBoard =
     [emptyLine,
      [None, None, man White, None, None, None, None, None],
      emptyLine, emptyLine, emptyLine, emptyLine, emptyLine, emptyLine]"

definition emptyBoard :: Board where
  "emptyBoard =
     [emptyLine, emptyLine, emptyLine, emptyLine, emptyLine, emptyLine, emptyLine, emptyLine]"

text \<open>The step of the lone white man onto row 0.\<close>

definition whiteStep :: Move where
  "whiteStep = \<lparr>from = \<lparr>row = 1, col = 2\<rparr>, to = \<lparr>row = 0, col = 1\<rparr>, captured = None\<rparr>"

text \<open>The first step of the white man of square (5, 0).\<close>

definition openingStep :: Move where
  "openingStep = \<lparr>from = \<lparr>row = 5, col = 0\<rparr>, to = \<lparr>row = 4, col = 1\<rparr>, captured = None\<rparr>"

text \<open>The initial board in a store: its rows at the addresses 0 to 7.\<close>

definition initialRef :: BoardRef where
  "initialRef = [0, 1, 2, 3, 4, 5, 6, 7]"

text \<open>A black man on (3, 2) next to a white man on (4, 3), the square (5, 4) behind it empty.\<close>

definition captureBoard :: Board where
  "captureBoard =
     [emptyLine, emptyLine, emptyLine,
      [None, None, man Black, None, None, None, None, None],
      [None, None, None, man White, None, None, None, None],
      emptyLine, emptyLine, emptyLine]"

section \<open>Basic facts\<close>

lemma indices_eq: "indices = [0, 1, 2, 3, 4, 5, 6, 7]"
  by (simp add: indices_def BOARD_SIZE_def upt_rec)

lemma squares_eq:
  "squares =
    [(0,0),(0,1),(0,2),(0,3),(0,4),(0,5),(0,6),(0,7),
     (1,0),(1,1),(1,2),(1,3),(1,4),(1,5),(1,6),(1,7),
     (2,0),(2,1),(2,2),(2,3),(2,4),(2,5),(2,6),(2,7),
     (3,0),(3,1),(3,2),(3,3),(3,4),(3,5),(3,6),(3,7),
     (4,0),(4,1),(4,2),(4,3),(4,4),(4,5),(4,6),(4,7),
     (5,0),(5,1),(5,2),(5,3),(5,4),(5,5),(5,6),(5,7),
     (6,0),(6,1),(6,2),(6,3),(6,4),(6,5),(6,6),(6,7),
     (7,0),(7,1),(7,2),(7,3),(7,4),(7,5),(7,6),(7,7)]"
  by (simp add: squares_def indices_eq)

lemma set_squares: "sq \<in> set squares \<longleftrightarrow> isValidPosition (fst sq) (snd sq)"
proof -
  have "x \<in> set indices \<longleftrightarrow> 0 \<le> x \<and> x < BOARD_SIZE" for x
    unfolding indices_eq BOARD_SIZE_def by (simp, arith)
  then show ?thesis
    by (cases sq) (auto simp: squares_def isValidPosition_def)
qed

lemma createInitialBoard_eq:
  "createInitialBoard =
    [[None, man Black, None, man Black, None, man Black, None, man Black],
     [man Black, None, man Black, None, man Black, None, man Black, None],
     [None, man Black, None, man Black, None, man Black, None, man Black],
     [None, None, None, None, None, None, None, None],
     [None, None, None, None, None, None, None, None],
     [man White, None, man White, None, man White, None, man White, None],
     [None, man White, None, man White, None, man White, None, man White],
     [man White, None, man White, None, man White, None, man White, None]]"
  unfolding man_def by code_simp

lemma wf_createInitialBoard: "wf_board createInitialBoard"
  by (simp add: createInitialBoard_eq wf_board_def BOARD_SIZE_def)

lemma wf_loneWhiteBoard: "wf_board loneWhiteBoard"
  by (simp add: loneWhiteBoard_def emptyLine_def wf_board_def BOARD_SIZE_def)

lemma wf_board_length: "wf_board board \<Longrightarrow> length board = 8"
  by (simp add: wf_board_def BOARD_SIZE_def)

lemma wf_board_line: "wf_board board \<Longrightarrow> r < 8 \<Longrightarrow> length (board ! r) = 8"
  by (simp add: wf_board_def BOARD_SIZE_def list_all_length)

lemma read_cell_wf:
  "wf_board board \<Longrightarrow> isValidPosition r c \<Longrightarrow> read_cell board r c = Some (board ! nat r ! nat c)"
  by (auto simp: wf_board_def isValidPosition_def read_cell_def list_all_iff Let_def)

section \<open>The move generator returns on every grid\<close>

lemma tryDirection_total:
  "wf_board board \<Longrightarrow> \<exists>acc'. tryDirection board position piece d acc = Some acc'"
  by (auto simp: tryDirection_def Let_def read_cell_wf split: option.splits)

lemma scanDirections_total:
  "wf_board board \<Longrightarrow> \<exists>acc'. scanDirections board position piece ds acc = Some acc'"
proof (induction ds arbitrary: acc)
  case Nil
  then show ?case by simp
next
  case (Cons d ds)
  from tryDirection_total [OF Cons.prems] obtain acc1
    where "tryDirection board position piece d acc = Some acc1" by blast
  with Cons.IH [OF Cons.prems, of acc1] show ?case by simp
qed

lemma getValidMoves_total:
  assumes "wf_board board" and "isValidPosition (row position) (col position)"
  shows "\<exists>ms. getValidMoves board position = Some ms"
proof (cases "board ! nat (row position) ! nat (col position)")
  case None
  with assms show ?thesis by (simp add: getValidMoves_def read_cell_wf)
next
  case (Some piece)
  from scanDirections_total [OF assms(1)] obtain acc
    where "scanDirections board position piece (directions piece) ([], []) = Some acc" by blast
  with assms Some show ?thesis by (simp add: getValidMoves_def read_cell_wf)
qed

lemma sortPieceMoves_filter:
  "sortPieceMoves ms acc =
     (fst acc @ filter (\<lambda>m. \<not> isCapture m) ms, snd acc @ filter isCapture ms)"
  by (induction ms arbitrary: acc) auto

lemma collectMoves_candidateMoves:
  "collectMoves board side sqs acc =
     map_option (\<lambda>raw. (fst acc @ filter (\<lambda>m. \<not> isCapture m) raw, snd acc @ filter isCapture raw))
       (candidateMoves board side sqs)"
proof (induction sqs arbitrary: acc)
  case Nil
  then show ?case by simp
next
  case (Cons sq sqs)
  show ?case
    by (cases "read_cell board (fst sq) (snd sq)";
        cases "getValidMoves board \<lparr>row = fst sq, col = snd sq\<rparr>";
        cases "candidateMoves board side sqs")
       (simp_all add: Cons.IH sortPieceMoves_filter)
qed

lemma candidateMoves_total:
  assumes "wf_board board" and "\<forall>sq\<in>set sqs. isValidPosition (fst sq) (snd sq)"
  shows "\<exists>raw. candidateMoves board side sqs = Some raw"
  using assms(2)
proof (induction sqs)
  case Nil
  then show ?case by simp
next
  case (Cons sq sqs)
  then obtain raw where raw: "candidateMoves board side sqs = Some raw" by auto
  from Cons.prems have v: "isValidPosition (fst sq) (snd sq)" by simp
  from getValidMoves_total [OF assms(1), of "\<lparr>row = fst sq, col = snd sq\<rparr>"] v
  obtain ms where "getValidMoves board \<lparr>row = fst sq, col = snd sq\<rparr> = Some ms" by auto
  with raw v assms(1) show ?case by (simp add: read_cell_wf)
qed

lemma filter_none:
  "\<not> (\<exists>m\<in>set raw. P m) \<Longrightarrow> filter (\<lambda>m. \<not> P m) raw = raw \<and> filter P raw = []"
  by (induction raw) auto

lemma getAllValidMoves_candidates:
  "getAllValidMoves board side =
     map_option (\<lambda>raw. if \<exists>m\<in>set raw. isCapture m then filter isCapture raw else raw)
       (candidateMoves board side squares)"
proof (cases "candidateMoves board side squares")
  case None
  then show ?thesis by (simp add: getAllValidMoves_def collectMoves_candidateMoves)
next
  case (Some raw)
  show ?thesis
  proof (cases "\<exists>m\<in>set raw. isCapture m")
    case True
    then have "filter isCapture raw \<noteq> []" by (auto simp: filter_empty_conv)
    with Some True show ?thesis
      by (simp add: getAllValidMoves_def collectMoves_candidateMoves)
  next
    case False
    from filter_none [OF False] Some False show ?thesis
      by (simp add: getAllValidMoves_def collectMoves_candidateMoves)
  qed
qed

lemma candidateMoves_squares_total:
  "wf_board board \<Longrightarrow> \<exists>raw. candidateMoves board side squares = Some raw"
  using candidateMoves_total [of board squares side] by (simp add: set_squares)

lemma getAllValidMoves_total:
  "wf_board board \<Longrightarrow> \<exists>ms. getAllValidMoves board side = Some ms"
  using candidateMoves_squares_total [of board side]
  by (auto simp: getAllValidMoves_candidates)

section \<open>The end-to-end scenarios of the specification\<close>

text \<open>Scenario A: the white man of (5, 0) steps to (4, 1) on the initial board.\<close>

lemma scenario_A:
  "makeMove createInitialBoard openingStep =
     Some [[None, man Black, None, man Black, None, man Black, None, man Black],
           [man Black, None, man Black, None, man Black, None, man Black, None],
           [None, man Black, None, man Black, None, man Black, None, man Black],
           [None, None, None, None, None, None, None, None],
           [None, man White, None, None, None, None, None, None],
           [None, None, man White, None, man White, None, man White, None],
           [None, man White, None, man White, None, man White, None, man White],
           [man White, None, man White, None, man White, None, man White, None]]"
  unfolding createInitialBoard_eq
  by (simp add: makeMove_def copyBoard_def copyCell_def read_cell_def write_cell_def
      write_elem_def openingStep_def man_def BOARD_SIZE_def Let_def)

text \<open>Scenario B: the black man has exactly one move, the capture of (4, 3) landing on (5, 4).\<close>

lemma scenario_B:
  "getValidMoves captureBoard \<lparr>row = 3, col = 2\<rparr> =
     Some [\<lparr>from = \<lparr>row = 3, col = 2\<rparr>, to = \<lparr>row = 5, col = 4\<rparr>,
            captured = Some [\<lparr>row = 4, col = 3\<rparr>]\<rparr>]"
  by (simp add: getValidMoves_def captureBoard_def emptyLine_def man_def read_cell_def
      directions_def tryDirection_def isValidPosition_def BOARD_SIZE_def Let_def)

text \<open>Scenario C: the lone white man of (1, 2) steps to (0, 1) and is a king there.\<close>

lemma scenario_C:
  "makeMove loneWhiteBoard whiteStep =
     Some [[None, Some \<lparr>type = White, isKing = True\<rparr>, None, None, None, None, None, None],
           emptyLine, emptyLine, emptyLine, emptyLine, emptyLine, emptyLine, emptyLine]"
  by (simp add: makeMove_def copyBoard_def copyCell_def read_cell_def write_cell_def
      write_elem_def whiteStep_def loneWhiteBoard_def emptyLine_def man_def BOARD_SIZE_def Let_def)

text \<open>The forced capture on the side level: black must take on the capture board.\<close>

lemma scenario_forced_capture:
  "getAllValidMoves captureBoard Black =
     Some [\<lparr>from = \<lparr>row = 3, col = 2\<rparr>, to = \<lparr>row = 5, col = 4\<rparr>,
            captured = Some [\<lparr>row = 4, col = 3\<rparr>]\<rparr>]"
  by code_simp

section \<open>C1: the global forced-capture rule\<close>

text \<open>
  Claim C1. \<^verbatim>\<open>getAllValidMoves\<close> raises exactly when collecting the per-piece move lists of
  the side does, and otherwise: if the union of the per-piece lists holds a capture, it
  returns the captures of the union (in order), hence captures only; if it holds none, it
  returns the union itself, which then consists of simple moves. On an 8x8 grid nothing is
  raised, for either side.
\<close>

theorem getAllValidMoves_forced_capture:
  "getAllValidMoves board side =
     map_option (\<lambda>raw. if \<exists>m\<in>set raw. isCapture m then filter isCapture raw else raw)
       (candidateMoves board side squares)
   \<and> (wf_board board \<longrightarrow>
        (\<exists>raw result. candidateMoves board side squares = Some raw
           \<and> getAllValidMoves board side = Some result
           \<and> (if \<exists>m\<in>set raw. isCapture m
               then result = filter isCapture raw \<and> (\<forall>m\<in>set result. isCapture m)
               else result = raw \<and> (\<forall>m\<in>set result. \<not> isCapture m))))"
proof (intro conjI impI)
  show "getAllValidMoves board side =
     map_option (\<lambda>raw. if \<exists>m\<in>set raw. isCapture m then filter isCapture raw else raw)
       (candidateMoves board side squares)"
    by (rule getAllValidMoves_candidates)
next
  assume "wf_board board"
  then obtain raw where raw: "candidateMoves board side squares = Some raw"
    using candidateMoves_squares_total by blast
  show "\<exists>raw result. candidateMoves board side squares = Some raw
           \<and> getAllValidMoves board side = Some result
           \<and> (if \<exists>m\<in>set raw. isCapture m
               then result = filter isCapture raw \<and> (\<forall>m\<in>set result. isCapture m)
               else result = raw \<and> (\<forall>m\<in>set result. \<not> isCapture m))"
  proof (cases "\<exists>m\<in>set raw. isCapture m")
    case True
    with raw show ?thesis by (simp add: getAllValidMoves_candidates)
  next
    case False
    with raw show ?thesis by (auto simp: getAllValidMoves_candidates)
  qed
qed

theorem getAllValidMoves_forced_capture_witness:
  "wf_board createInitialBoard
   \<and> (\<exists>raw result. candidateMoves createInitialBoard Black squares = Some raw
         \<and> getAllValidMoves createInitialBoard Black = Some result
         \<and> (if \<exists>m\<in>set raw. isCapture m
             then result = filter isCapture raw \<and> (\<forall>m\<in>set result. isCapture m)
             else result = raw \<and> (\<forall>m\<in>set result. \<not> isCapture m)))"
  using getAllValidMoves_forced_capture [of createInitialBoard Black] wf_createInitialBoard
  by blast

section \<open>C6: the initial position\<close>


lemma int_below_8: "0 \<le> (r::int) \<Longrightarrow> r < 8 \<Longrightarrow> r = 0 \<or> r = 1 \<or> r = 2 \<or> r = 3 \<or> r = 4 \<or> r = 5 \<or> r = 6 \<or> r = 7"
  by arith

lemma read_cell_Some_Some:
  assumes "wf_board board" and "read_cell board r c = Some (Some piece)"
  shows "isValidPosition r c \<and> board ! nat r ! nat c = Some piece"
proof -
  from assms(2) have r: "0 \<le> r" "r < int (length board)"
    by (auto simp: read_cell_def split: if_splits)
  with assms(1) have len: "length (board ! nat r) = 8"
    by (simp add: wf_board_length wf_board_line)
  from assms(2) r len have "0 \<le> c \<and> c < 8 \<and> board ! nat r ! nat c = Some piece"
    by (auto simp: read_cell_def Let_def split: if_splits)
  with r assms(1) show ?thesis
    by (simp add: isValidPosition_def BOARD_SIZE_def wf_board_length)
qed

text \<open>
  Claim C6. The initial board is an 8x8 grid with exactly 12 black and exactly 12 white
  pieces (and no piece of the null type); every piece on it is no king, stands on a square
  whose row plus column is odd, and is black on rows 0-2 or white on rows 5-7; every cell
  of rows 3 and 4 is empty.
\<close>

theorem createInitialBoard_layout:
  "wf_board createInitialBoard
   \<and> pieceCount createInitialBoard Black = 12
   \<and> pieceCount createInitialBoard White = 12
   \<and> pieceCount createInitialBoard Null = 0
   \<and> (\<forall>r c piece. read_cell createInitialBoard r c = Some (Some piece) \<longrightarrow>
         \<not> isKing piece \<and> (r + c) mod 2 = 1
         \<and> (type piece = Black \<and> 0 \<le> r \<and> r \<le> 2 \<or> type piece = White \<and> 5 \<le> r \<and> r \<le> 7))
   \<and> (\<forall>c. read_cell createInitialBoard 3 c = Some None \<and> read_cell createInitialBoard 4 c = Some None)"
proof -
  have counts: "pieceCount createInitialBoard Black = 12" "pieceCount createInitialBoard White = 12"
    "pieceCount createInitialBoard Null = 0"
    by (simp_all add: pieceCount_def createInitialBoard_eq man_def holds_def)
  have pieces: "\<not> isKing piece \<and> (r + c) mod 2 = 1
         \<and> (type piece = Black \<and> 0 \<le> r \<and> r \<le> 2 \<or> type piece = White \<and> 5 \<le> r \<and> r \<le> 7)"
    if a: "read_cell createInitialBoard r c = Some (Some piece)" for r c piece
  proof -
    from read_cell_Some_Some [OF wf_createInitialBoard a]
    have v: "isValidPosition r c" and p: "createInitialBoard ! nat r ! nat c = Some piece"
      by simp_all
    from v have "(r = 0 \<or> r = 1 \<or> r = 2 \<or> r = 3 \<or> r = 4 \<or> r = 5 \<or> r = 6 \<or> r = 7)"
      and "(c = 0 \<or> c = 1 \<or> c = 2 \<or> c = 3 \<or> c = 4 \<or> c = 5 \<or> c = 6 \<or> c = 7)"
      by (simp_all add: isValidPosition_def BOARD_SIZE_def int_below_8)
    with p show ?thesis
      unfolding createInitialBoard_eq man_def by (elim disjE) auto
  qed
  have middle: "read_cell createInitialBoard 3 c = Some None \<and> read_cell createInitialBoard 4 c = Some None"
    for c :: int
  proof -
    have "c < 0 \<or> 8 \<le> c \<or> (c = 0 \<or> c = 1 \<or> c = 2 \<or> c = 3 \<or> c = 4 \<or> c = 5 \<or> c = 6 \<or> c = 7)"
      by arith
    then show ?thesis
      unfolding createInitialBoard_eq read_cell_def by (elim disjE) (simp_all add: Let_def)
  qed
  from counts pieces middle wf_createInitialBoard show ?thesis by blast
qed

text \<open>The statement at the black man of square (2, 1).\<close>

theorem createInitialBoard_layout_witness:
  "read_cell createInitialBoard 2 1 = Some (Some \<lparr>type = Black, isKing = False\<rparr>)
   \<and> \<not> isKing \<lparr>type = Black, isKing = False\<rparr> \<and> ((2::int) + 1) mod 2 = 1
   \<and> (type \<lparr>type = Black, isKing = False\<rparr> = Black \<and> (0::int) \<le> 2 \<and> (2::int) \<le> 2)"
proof -
  have h: "read_cell createInitialBoard 2 1 = Some (Some \<lparr>type = Black, isKing = False\<rparr>)"
    by (simp add: createInitialBoard_eq read_cell_def man_def)
  from createInitialBoard_layout h show ?thesis by simp
qed

section \<open>C5 and C10: the terminal detector\<close>

lemma map_nth_8: "length xs = 8 \<Longrightarrow> map (\<lambda>i. xs ! i) [0..<8] = xs"
  using map_nth [of xs] by simp

lemma cells_in_order:
  assumes "wf_board board"
  shows "map (\<lambda>sq. board ! nat (fst sq) ! nat (snd sq)) squares = concat board"
proof -
  have line: "map (\<lambda>c. board ! r ! c) [0..<8] = board ! r" if "r < 8" for r
    using map_nth_8 [of "board ! r"] wf_board_line [OF assms that] by simp
  have "map (\<lambda>sq. board ! nat (fst sq) ! nat (snd sq)) squares
          = concat (map (\<lambda>r. map (\<lambda>c. board ! r ! c) [0..<8]) [0..<8])"
    by (simp add: squares_def indices_def BOARD_SIZE_def map_concat o_def)
  also have "\<dots> = concat (map (\<lambda>r. board ! r) [0..<8])"
    using line by (intro arg_cong [where f = concat] map_cong) auto
  also have "\<dots> = concat board"
    using map_nth_8 [of board] wf_board_length [OF assms] by simp
  finally show ?thesis .
qed

lemma countPieces_filter:
  assumes "wf_board board" and "\<forall>sq\<in>set sqs. isValidPosition (fst sq) (snd sq)"
  shows "countPieces board sqs counts =
     Some (fst counts + length (filter (holds White) (map (\<lambda>sq. board ! nat (fst sq) ! nat (snd sq)) sqs)),
           snd counts + length (filter (holds Black) (map (\<lambda>sq. board ! nat (fst sq) ! nat (snd sq)) sqs)))"
  using assms(2)
proof (induction sqs arbitrary: counts)
  case Nil
  then show ?case by simp
next
  case (Cons sq sqs)
  then show ?case
    by (simp add: read_cell_wf [OF assms(1)] holds_def Let_def)
qed

lemma countPieces_squares:
  "wf_board board \<Longrightarrow>
     countPieces board squares (0, 0) = Some (pieceCount board White, pieceCount board Black)"
  by (simp add: countPieces_filter set_squares cells_in_order pieceCount_def)

lemma checkWinner_wf:
  assumes "wf_board board"
    and "getAllValidMoves board White = Some whiteMoves"
    and "getAllValidMoves board Black = Some blackMoves"
  shows "checkWinner board =
     Some (if pieceCount board White = 0 then Black
           else if pieceCount board Black = 0 then White
           else if whiteMoves = [] \<and> blackMoves \<noteq> [] then Black
           else if blackMoves = [] \<and> whiteMoves \<noteq> [] then White
           else Null)"
  using assms by (simp add: checkWinner_def countPieces_squares)

text \<open>
  Claim C5. On every 8x8 grid both move lists are computed and \<^verbatim>\<open>checkWinner\<close> returns: black
  when white has no piece; white when white has a piece and black has none; otherwise black
  when white has no move and black has one, white when black has no move and white has one,
  and \<^verbatim>\<open>null\<close> in every other case. The result is a function of the board alone: the function
  has no other argument.
\<close>

theorem checkWinner_decision:
  assumes "wf_board board"
  shows "\<exists>whiteMoves blackMoves.
           getAllValidMoves board White = Some whiteMoves
         \<and> getAllValidMoves board Black = Some blackMoves
         \<and> checkWinner board =
             Some (if pieceCount board White = 0 then Black
                   else if pieceCount board Black = 0 then White
                   else if whiteMoves = [] \<and> blackMoves \<noteq> [] then Black
                   else if blackMoves = [] \<and> whiteMoves \<noteq> [] then White
                   else Null)"
proof -
  from getAllValidMoves_total [OF assms] obtain whiteMoves blackMoves
    where "getAllValidMoves board White = Some whiteMoves"
      and "getAllValidMoves board Black = Some blackMoves" by blast
  with checkWinner_wf [OF assms] show ?thesis by blast
qed

text \<open>A lone white man: white has a piece, black has none, white wins.\<close>

theorem checkWinner_decision_witness:
  "wf_board loneWhiteBoard \<and> checkWinner loneWhiteBoard = Some White"
proof -
  have "pieceCount loneWhiteBoard White \<noteq> 0" "pieceCount loneWhiteBoard Black = 0"
    by (simp_all add: pieceCount_def loneWhiteBoard_def emptyLine_def man_def holds_def)
  with checkWinner_decision [OF wf_loneWhiteBoard] wf_loneWhiteBoard show ?thesis by auto
qed

lemma wf_emptyBoard: "wf_board emptyBoard"
  by (simp add: emptyBoard_def emptyLine_def wf_board_def BOARD_SIZE_def)

text \<open>
  Claim C10. On an 8x8 grid on which neither side has a piece, \<^verbatim>\<open>checkWinner\<close> returns black:
  the white count is tested first.
\<close>

theorem checkWinner_no_pieces:
  assumes "wf_board board" and "pieceCount board White = 0" and "pieceCount board Black = 0"
  shows "checkWinner board = Some Black"
proof -
  from getAllValidMoves_total [OF assms(1)] obtain whiteMoves blackMoves
    where "getAllValidMoves board White = Some whiteMoves"
      and "getAllValidMoves board Black = Some blackMoves" by blast
  with checkWinner_wf [OF assms(1)] assms(2) show ?thesis by simp
qed

text \<open>The empty board.\<close>

theorem checkWinner_no_pieces_witness:
  "wf_board emptyBoard \<and> pieceCount emptyBoard White = 0 \<and> pieceCount emptyBoard Black = 0
   \<and> checkWinner emptyBoard = Some Black"
proof -
  have c: "pieceCount emptyBoard White = 0" "pieceCount emptyBoard Black = 0"
    by (simp_all add: pieceCount_def emptyBoard_def emptyLine_def holds_def)
  from checkWinner_no_pieces [OF wf_emptyBoard c] wf_emptyBoard c show ?thesis by simp
qed

section \<open>C7: the move evaluator\<close>

text \<open>
  Claim C7, as amended. The score of a move is 100 for each captured square, plus 50 when
  the destination row is 7 (the far rank of black, whatever piece moves), plus 5 times
  (7 minus the Manhattan distance of the destination from the centre point (3.5, 3.5)),
  minus 10 when the destination column is 0 or 7; and it is the same on any two boards.
\<close>

theorem evaluateMove_formula:
  "evaluateMove board move =
      100 * real (length (capturedSquares move))
    + (if row (to move) = 7 then 50 else 0)
    + 5 * (7 - (\<bar>real_of_int (row (to move)) - 7 / 2\<bar> + \<bar>real_of_int (col (to move)) - 7 / 2\<bar>))
    - (if col (to move) = 0 \<or> col (to move) = 7 then 10 else 0)
   \<and> evaluateMove board move = evaluateMove board' move"
  by (simp add: evaluateMove_def capturedSquares_def BOARD_SIZE_def Let_def split: option.splits)

text \<open>
  Claim C7 as stated fails: a white man stepping from (1, 2) onto its far rank, row 0, scores
  5, without the 50 the claim adds for reaching the far rank of the moving piece's side.
\<close>

theorem evaluateMove_far_rank_counterexample:
  "read_cell loneWhiteBoard 1 2 = Some (man White)
   \<and> row (to whiteStep) = farRank White
   \<and> evaluateMove loneWhiteBoard whiteStep = 5
   \<and> evaluateMove loneWhiteBoard whiteStep \<noteq>
        100 * real (length (capturedSquares whiteStep)) + 50
      + 5 * (7 - (\<bar>real_of_int (row (to whiteStep)) - 7 / 2\<bar> + \<bar>real_of_int (col (to whiteStep)) - 7 / 2\<bar>))
      - (if col (to whiteStep) = 0 \<or> col (to whiteStep) = 7 then 10 else 0)"
  by (simp add: evaluateMove_def whiteStep_def loneWhiteBoard_def emptyLine_def read_cell_def
      farRank_def capturedSquares_def BOARD_SIZE_def Let_def)

section \<open>What the move applicator writes\<close>


lemma copyCell_id: "copyCell cell = cell"
  by (cases cell) (simp_all add: copyCell_def)

lemma copyBoard_id: "copyBoard board = board"
  by (simp add: copyBoard_def copyCell_id map_idI)

lemma isValidPosition_nat:
  "isValidPosition r c \<Longrightarrow> nat r < 8 \<and> nat c < 8 \<and> 0 \<le> r \<and> 0 \<le> c \<and> r < 8 \<and> c < 8"
  by (auto simp: isValidPosition_def BOARD_SIZE_def)

lemma wf_board_update:
  assumes "wf_board board" and "r < 8"
  shows "wf_board (board[r := (board ! r)[c := v]])"
  using assms
  by (auto simp: wf_board_def BOARD_SIZE_def list_all_length nth_list_update)

lemma write_cell_wf:
  assumes "wf_board board" and "isValidPosition r c"
  shows "write_cell board r c v = Some (board[nat r := (board ! nat r)[nat c := v]])"
proof -
  from isValidPosition_nat [OF assms(2)]
  have r: "nat r < 8" "nat c < 8" "0 \<le> r" "0 \<le> c" "r < 8" "c < 8" by simp_all
  with assms(1) have "length (board ! nat r) = 8" by (simp add: wf_board_line)
  with r assms(1) show ?thesis
    by (simp add: write_cell_def write_elem_def wf_board_length)
qed

lemma write_cell_read:
  assumes "wf_board board" and "isValidPosition r c"
  shows "\<exists>board'. write_cell board r c v = Some board' \<and> wf_board board'
           \<and> (\<forall>r' c'. isValidPosition r' c' \<longrightarrow>
                 board' ! nat r' ! nat c' = (if r' = r \<and> c' = c then v else board ! nat r' ! nat c'))"
proof -
  let ?b = "board[nat r := (board ! nat r)[nat c := v]]"
  from isValidPosition_nat [OF assms(2)] have r: "nat r < 8" "nat c < 8" "0 \<le> r" "0 \<le> c" by simp_all
  have wf: "wf_board ?b" using assms(1) r(1) by (rule wf_board_update)
  have "?b ! nat r' ! nat c' = (if r' = r \<and> c' = c then v else board ! nat r' ! nat c')"
    if "isValidPosition r' c'" for r' c'
  proof -
    from isValidPosition_nat [OF that] have r': "nat r' < 8" "nat c' < 8" "0 \<le> r'" "0 \<le> c'" by simp_all
    from assms(1) r r' have "length board = 8" "length (board ! nat r) = 8"
      by (simp_all add: wf_board_length wf_board_line)
    with r r' show ?thesis by (auto simp: nth_list_update)
  qed
  with wf write_cell_wf [OF assms] show ?thesis by simp
qed

lemma clearCaptured_read:
  assumes "wf_board board" and "\<forall>pos\<in>set cs. onBoard pos"
  shows "\<exists>board'. clearCaptured board cs = Some board' \<and> wf_board board'
           \<and> (\<forall>r c. isValidPosition r c \<longrightarrow>
                 board' ! nat r ! nat c =
                   (if \<lparr>row = r, col = c\<rparr> \<in> set cs then None else board ! nat r ! nat c))"
  using assms
proof (induction cs arbitrary: board)
  case Nil
  then show ?case by simp
next
  case (Cons pos cs)
  from Cons.prems have v: "isValidPosition (row pos) (col pos)" by (simp add: onBoard_def)
  from write_cell_read [OF Cons.prems(1) v, of None] obtain b1
    where b1: "write_cell board (row pos) (col pos) None = Some b1" "wf_board b1"
      and c1: "\<And>r' c'. isValidPosition r' c' \<Longrightarrow>
                 b1 ! nat r' ! nat c' = (if r' = row pos \<and> c' = col pos then None else board ! nat r' ! nat c')"
    by blast
  from Cons.IH [OF b1(2)] Cons.prems(2) obtain b2
    where b2: "clearCaptured b1 cs = Some b2" "wf_board b2"
      and c2: "\<And>r c. isValidPosition r c \<Longrightarrow>
                 b2 ! nat r ! nat c = (if \<lparr>row = r, col = c\<rparr> \<in> set cs then None else b1 ! nat r ! nat c)"
    by auto
  have "b2 ! nat r ! nat c = (if \<lparr>row = r, col = c\<rparr> \<in> set (pos # cs) then None else board ! nat r ! nat c)"
    if "isValidPosition r c" for r c
    using c1 [OF that] c2 [OF that] by (cases pos) auto
  with b1 b2 show ?case by simp
qed

lemma makeMove_cells:
  assumes wf: "wf_board board"
    and origin: "read_cell board (row (from move)) (col (from move)) = Some (Some piece)"
    and dest: "onBoard (to move)"
    and capt: "\<forall>pos\<in>set (capturedSquares move). onBoard pos"
  shows "\<exists>board'. makeMove board move = Some board' \<and> wf_board board'
           \<and> (\<forall>r c. isValidPosition r c \<longrightarrow>
                 board' ! nat r ! nat c =
                   (if promotes piece move \<and> r = row (to move) \<and> c = col (to move)
                      then Some (piece\<lparr>isKing := True\<rparr>)
                    else if \<lparr>row = r, col = c\<rparr> \<in> set (capturedSquares move) then None
                    else if r = row (from move) \<and> c = col (from move) then None
                    else if r = row (to move) \<and> c = col (to move) then Some piece
                    else board ! nat r ! nat c))"
proof -
  from read_cell_Some_Some [OF wf origin]
  have vf: "isValidPosition (row (from move)) (col (from move))" by simp
  from dest have vt: "isValidPosition (row (to move)) (col (to move))" by (simp add: onBoard_def)
  from write_cell_read [OF wf vt, of "Some piece"] obtain b1
    where b1: "write_cell board (row (to move)) (col (to move)) (Some piece) = Some b1" "wf_board b1"
      and c1: "\<And>r c. isValidPosition r c \<Longrightarrow> b1 ! nat r ! nat c =
                 (if r = row (to move) \<and> c = col (to move) then Some piece else board ! nat r ! nat c)"
    by blast
  from write_cell_read [OF b1(2) vf, of None] obtain b2
    where b2: "write_cell b1 (row (from move)) (col (from move)) None = Some b2" "wf_board b2"
      and c2: "\<And>r c. isValidPosition r c \<Longrightarrow> b2 ! nat r ! nat c =
                 (if r = row (from move) \<and> c = col (from move) then None else b1 ! nat r ! nat c)"
    by blast
  from clearCaptured_read [OF b2(2) capt] obtain b3
    where b3: "clearCaptured b2 (capturedSquares move) = Some b3" "wf_board b3"
      and c3: "\<And>r c. isValidPosition r c \<Longrightarrow> b3 ! nat r ! nat c =
                 (if \<lparr>row = r, col = c\<rparr> \<in> set (capturedSquares move) then None else b2 ! nat r ! nat c)"
    by blast
  have b3': "(case captured move of None \<Rightarrow> Some b2 | Some cs \<Rightarrow> clearCaptured b2 cs) = Some b3"
    using b3(1) by (simp add: capturedSquares_def split: option.splits)
  from write_cell_read [OF b3(2) vt, of "Some (piece\<lparr>isKing := True\<rparr>)"] obtain b4
    where b4: "write_cell b3 (row (to move)) (col (to move)) (Some (piece\<lparr>isKing := True\<rparr>)) = Some b4"
              "wf_board b4"
      and c4: "\<And>r c. isValidPosition r c \<Longrightarrow> b4 ! nat r ! nat c =
                 (if r = row (to move) \<and> c = col (to move) then Some (piece\<lparr>isKing := True\<rparr>)
                  else b3 ! nat r ! nat c)"
    by blast
  show ?thesis
  proof (cases "promotes piece move")
    case True
    then have "makeMove board move = Some b4"
      using origin b1(1) b2(1) b3' b4(1)
      by (auto simp: makeMove_def copyBoard_id promotes_def)
    moreover have "b4 ! nat r ! nat c =
                   (if promotes piece move \<and> r = row (to move) \<and> c = col (to move)
                      then Some (piece\<lparr>isKing := True\<rparr>)
                    else if \<lparr>row = r, col = c\<rparr> \<in> set (capturedSquares move) then None
                    else if r = row (from move) \<and> c = col (from move) then None
                    else if r = row (to move) \<and> c = col (to move) then Some piece
                    else board ! nat r ! nat c)" if "isValidPosition r c" for r c
      unfolding c4 [OF that] c3 [OF that] c2 [OF that] c1 [OF that] using True by simp
    ultimately show ?thesis using b4(2) by blast
  next
    case False
    then have "makeMove board move = Some b3"
      using origin b1(1) b2(1) b3'
      by (auto simp: makeMove_def copyBoard_id promotes_def)
    moreover have "b3 ! nat r ! nat c =
                   (if promotes piece move \<and> r = row (to move) \<and> c = col (to move)
                      then Some (piece\<lparr>isKing := True\<rparr>)
                    else if \<lparr>row = r, col = c\<rparr> \<in> set (capturedSquares move) then None
                    else if r = row (from move) \<and> c = col (from move) then None
                    else if r = row (to move) \<and> c = col (to move) then Some piece
                    else board ! nat r ! nat c)" if "isValidPosition r c" for r c
      unfolding c3 [OF that] c2 [OF that] c1 [OF that] using False by simp
    ultimately show ?thesis using b3(2) by blast
  qed
qed

lemma makeMove_empty_origin:
  "read_cell board (row (from move)) (col (from move)) = Some None \<Longrightarrow> makeMove board move = Some board"
  by (simp add: makeMove_def copyBoard_id)

section \<open>The move applicator on a store computes the same grid and spares old arrays\<close>

lemma board_at_update:
  assumes "distinct bref" and "r < length bref" and "bref ! r < length store"
  shows "board_at (store[bref ! r := x]) bref = (board_at store bref)[r := x]"
proof (rule nth_equalityI)
  show "length (board_at (store[bref ! r := x]) bref) = length ((board_at store bref)[r := x])"
    by (simp add: board_at_def)
next
  fix i
  assume "i < length (board_at (store[bref ! r := x]) bref)"
  then have i: "i < length bref" by (simp add: board_at_def)
  with assms have "bref ! r = bref ! i \<longleftrightarrow> r = i"
    by (simp add: nth_eq_iff_index_eq)
  with i assms show "board_at (store[bref ! r := x]) bref ! i = (board_at store bref)[r := x] ! i"
    by (simp add: board_at_def nth_list_update)
qed

lemma simulates_bind:
  assumes "simulates store bref x y"
    and "\<And>s. freshRef (length store) s bref \<Longrightarrow> take (length store) s = store
            \<Longrightarrow> simulates store bref (f s) (g (board_at s bref))"
  shows "simulates store bref (x \<bind> f) (y \<bind> g)"
  using assms by (cases x) (simp_all add: simulates_def)

lemma simulates_Some:
  "freshRef (length store) s bref \<Longrightarrow> take (length store) s = store
     \<Longrightarrow> simulates store bref (Some s) (Some (board_at s bref))"
  by (simp add: simulates_def)

lemma write_cellH_sim:
  assumes "freshRef (length store) s bref" and "take (length store) s = store"
  shows "simulates store bref (write_cellH s bref r c v) (write_cell (board_at s bref) r c v)"
proof (cases "0 \<le> r \<and> r < int (length bref)")
  case False
  then show ?thesis by (auto simp: simulates_def write_cellH_def write_cell_def board_at_def)
next
  case True
  then have r: "nat r < length bref" by auto
  from assms(1) have d: "distinct bref"
    and a: "length store \<le> bref ! nat r" "bref ! nat r < length s"
    using r by (simp_all add: freshRef_def list_all_length)
  let ?s' = "s[bref ! nat r := write_elem (s ! (bref ! nat r)) c v]"
  have "board_at ?s' bref = (board_at s bref)[nat r := write_elem (board_at s bref ! nat r) c v]"
    using board_at_update [OF d r a(2)] r by (simp add: board_at_def)
  moreover have "freshRef (length store) ?s' bref"
    using assms(1) by (simp add: freshRef_def)
  moreover have "take (length store) ?s' = store"
    using a(1) assms(2) by simp
  ultimately show ?thesis
    using True by (simp add: simulates_def write_cellH_def write_cell_def board_at_def)
qed

lemma clearCapturedH_sim:
  assumes "freshRef (length store) s bref" and "take (length store) s = store"
  shows "simulates store bref (clearCapturedH s bref cs) (clearCaptured (board_at s bref) cs)"
  using assms
proof (induction cs arbitrary: s)
  case Nil
  then show ?case by (simp add: simulates_Some)
next
  case (Cons pos cs)
  show ?case
    unfolding clearCapturedH.simps clearCaptured.simps
    by (rule simulates_bind [OF write_cellH_sim [OF Cons.prems]]) (rule Cons.IH)
qed

lemma copyBoardH_sim:
  assumes "valid_ref store bref"
  shows "freshRef (length store) (fst (copyBoardH store bref)) (snd (copyBoardH store bref))"
    and "take (length store) (fst (copyBoardH store bref)) = store"
    and "board_at (fst (copyBoardH store bref)) (snd (copyBoardH store bref))
           = copyBoard (board_at store bref)"
proof -
  let ?new = "map (\<lambda>a. map copyCell (store ! a)) bref"
  have "map (\<lambda>a. (store @ ?new) ! a) [length store ..< length store + length bref] = ?new"
    by (rule nth_equalityI) (simp_all add: nth_append)
  then show "board_at (fst (copyBoardH store bref)) (snd (copyBoardH store bref))
           = copyBoard (board_at store bref)"
    by (simp add: copyBoardH_def board_at_def copyBoard_def)
  show "freshRef (length store) (fst (copyBoardH store bref)) (snd (copyBoardH store bref))"
    by (simp add: copyBoardH_def freshRef_def list_all_iff)
  show "take (length store) (fst (copyBoardH store bref)) = store"
    by (simp add: copyBoardH_def)
qed

lemma makeMoveH_sim:
  assumes "valid_ref store bref"
  shows "simulates store (snd (copyBoardH store bref))
           (map_option fst (makeMoveH store bref move)) (makeMove (board_at store bref) move)
         \<and> map_option snd (makeMoveH store bref move)
             = map_option (\<lambda>s. snd (copyBoardH store bref)) (makeMoveH store bref move)"
proof -
  define s0 where "s0 = fst (copyBoardH store bref)"
  define nb where "nb = snd (copyBoardH store bref)"
  note c = copyBoardH_sim [OF assms, folded s0_def nb_def]
  define inner where "inner =
    do {
      cell \<leftarrow> read_cell (board_at s0 nb) (row (from move)) (col (from move));
      case cell of
        None \<Rightarrow> Some s0
      | Some piece \<Rightarrow>
          do {
            placed \<leftarrow> write_cellH s0 nb (row (to move)) (col (to move)) (Some piece);
            vacated \<leftarrow> write_cellH placed nb (row (from move)) (col (from move)) None;
            cleared \<leftarrow> (case captured move of
                          None \<Rightarrow> Some vacated
                        | Some cs \<Rightarrow> clearCapturedH vacated nb cs);
            if type piece = White \<and> row (to move) = 0 then
              write_cellH cleared nb (row (to move)) (col (to move)) (Some (piece\<lparr>isKing := True\<rparr>))
            else if type piece = Black \<and> row (to move) = BOARD_SIZE - 1 then
              write_cellH cleared nb (row (to move)) (col (to move)) (Some (piece\<lparr>isKing := True\<rparr>))
            else Some cleared
          }
    }"
  have mH: "makeMoveH store bref move = map_option (\<lambda>final. (final, nb)) inner"
    unfolding makeMoveH_def Let_def inner_def s0_def nb_def by (rule refl)
  have mV: "makeMove (board_at store bref) move =
    do {
      cell \<leftarrow> read_cell (board_at s0 nb) (row (from move)) (col (from move));
      case cell of
        None \<Rightarrow> Some (board_at s0 nb)
      | Some piece \<Rightarrow>
          do {
            placed \<leftarrow> write_cell (board_at s0 nb) (row (to move)) (col (to move)) (Some piece);
            vacated \<leftarrow> write_cell placed (row (from move)) (col (from move)) None;
            cleared \<leftarrow> (case captured move of
                          None \<Rightarrow> Some vacated
                        | Some cs \<Rightarrow> clearCaptured vacated cs);
            if type piece = White \<and> row (to move) = 0 then
              write_cell cleared (row (to move)) (col (to move)) (Some (piece\<lparr>isKing := True\<rparr>))
            else if type piece = Black \<and> row (to move) = BOARD_SIZE - 1 then
              write_cell cleared (row (to move)) (col (to move)) (Some (piece\<lparr>isKing := True\<rparr>))
            else Some cleared
          }
    }"
    unfolding makeMove_def Let_def c(3) by (rule refl)
  have "simulates store nb inner (makeMove (board_at store bref) move)"
  proof (cases "read_cell (board_at s0 nb) (row (from move)) (col (from move))")
    case None
    then show ?thesis by (simp add: mV inner_def simulates_def)
  next
    case (Some cell)
    show ?thesis
    proof (cases cell)
      case None
      with \<open>read_cell (board_at s0 nb) (row (from move)) (col (from move)) = Some cell\<close>
        simulates_Some [OF c(1) c(2)]
      show ?thesis by (simp add: mV inner_def)
    next
      case (Some piece)
      have "simulates store nb
        (do {
            placed \<leftarrow> write_cellH s0 nb (row (to move)) (col (to move)) (Some piece);
            vacated \<leftarrow> write_cellH placed nb (row (from move)) (col (from move)) None;
            cleared \<leftarrow> (case captured move of
                          None \<Rightarrow> Some vacated
                        | Some cs \<Rightarrow> clearCapturedH vacated nb cs);
            if type piece = White \<and> row (to move) = 0 then
              write_cellH cleared nb (row (to move)) (col (to move)) (Some (piece\<lparr>isKing := True\<rparr>))
            else if type piece = Black \<and> row (to move) = BOARD_SIZE - 1 then
              write_cellH cleared nb (row (to move)) (col (to move)) (Some (piece\<lparr>isKing := True\<rparr>))
            else Some cleared
          })
        (do {
            placed \<leftarrow> write_cell (board_at s0 nb) (row (to move)) (col (to move)) (Some piece);
            vacated \<leftarrow> write_cell placed (row (from move)) (col (from move)) None;
            cleared \<leftarrow> (case captured move of
                          None \<Rightarrow> Some vacated
                        | Some cs \<Rightarrow> clearCaptured vacated cs);
            if type piece = White \<and> row (to move) = 0 then
              write_cell cleared (row (to move)) (col (to move)) (Some (piece\<lparr>isKing := True\<rparr>))
            else if type piece = Black \<and> row (to move) = BOARD_SIZE - 1 then
              write_cell cleared (row (to move)) (col (to move)) (Some (piece\<lparr>isKing := True\<rparr>))
            else Some cleared
          })"
      proof (rule simulates_bind [OF write_cellH_sim [OF c(1) c(2)]])
        fix s1 assume f1: "freshRef (length store) s1 nb" "take (length store) s1 = store"
        show "simulates store nb
          (do {
            vacated \<leftarrow> write_cellH s1 nb (row (from move)) (col (from move)) None;
            cleared \<leftarrow> (case captured move of
                          None \<Rightarrow> Some vacated
                        | Some cs \<Rightarrow> clearCapturedH vacated nb cs);
            if type piece = White \<and> row (to move) = 0 then
              write_cellH cleared nb (row (to move)) (col (to move)) (Some (piece\<lparr>isKing := True\<rparr>))
            else if type piece = Black \<and> row (to move) = BOARD_SIZE - 1 then
              write_cellH cleared nb (row (to move)) (col (to move)) (Some (piece\<lparr>isKing := True\<rparr>))
            else Some cleared
          })
          (do {
            vacated \<leftarrow> write_cell (board_at s1 nb) (row (from move)) (col (from move)) None;
            cleared \<leftarrow> (case captured move of
                          None \<Rightarrow> Some vacated
                        | Some cs \<Rightarrow> clearCaptured vacated cs);
            if type piece = White \<and> row (to move) = 0 then
              write_cell cleared (row (to move)) (col (to move)) (Some (piece\<lparr>isKing := True\<rparr>))
            else if type piece = Black \<and> row (to move) = BOARD_SIZE - 1 then
              write_cell cleared (row (to move)) (col (to move)) (Some (piece\<lparr>isKing := True\<rparr>))
            else Some cleared
          })"
        proof (rule simulates_bind [OF write_cellH_sim [OF f1]])
          fix s2 assume f2: "freshRef (length store) s2 nb" "take (length store) s2 = store"
          have cl: "simulates store nb
                      (case captured move of None \<Rightarrow> Some s2 | Some cs \<Rightarrow> clearCapturedH s2 nb cs)
                      (case captured move of None \<Rightarrow> Some (board_at s2 nb)
                       | Some cs \<Rightarrow> clearCaptured (board_at s2 nb) cs)"
            using f2 by (cases "captured move") (simp_all add: simulates_Some clearCapturedH_sim)
          show "simulates store nb
            (do {
              cleared \<leftarrow> (case captured move of
                            None \<Rightarrow> Some s2
                          | Some cs \<Rightarrow> clearCapturedH s2 nb cs);
              if type piece = White \<and> row (to move) = 0 then
                write_cellH cleared nb (row (to move)) (col (to move)) (Some (piece\<lparr>isKing := True\<rparr>))
              else if type piece = Black \<and> row (to move) = BOARD_SIZE - 1 then
                write_cellH cleared nb (row (to move)) (col (to move)) (Some (piece\<lparr>isKing := True\<rparr>))
              else Some cleared
            })
            (do {
              cleared \<leftarrow> (case captured move of
                            None \<Rightarrow> Some (board_at s2 nb)
                          | Some cs \<Rightarrow> clearCaptured (board_at s2 nb) cs);
              if type piece = White \<and> row (to move) = 0 then
                write_cell cleared (row (to move)) (col (to move)) (Some (piece\<lparr>isKing := True\<rparr>))
              else if type piece = Black \<and> row (to move) = BOARD_SIZE - 1 then
                write_cell cleared (row (to move)) (col (to move)) (Some (piece\<lparr>isKing := True\<rparr>))
              else Some cleared
            })"
          proof (rule simulates_bind [OF cl])
            fix s3 assume f3: "freshRef (length store) s3 nb" "take (length store) s3 = store"
            then show "simulates store nb
              (if type piece = White \<and> row (to move) = 0 then
                write_cellH s3 nb (row (to move)) (col (to move)) (Some (piece\<lparr>isKing := True\<rparr>))
              else if type piece = Black \<and> row (to move) = BOARD_SIZE - 1 then
                write_cellH s3 nb (row (to move)) (col (to move)) (Some (piece\<lparr>isKing := True\<rparr>))
              else Some s3)
              (if type piece = White \<and> row (to move) = 0 then
                write_cell (board_at s3 nb) (row (to move)) (col (to move)) (Some (piece\<lparr>isKing := True\<rparr>))
              else if type piece = Black \<and> row (to move) = BOARD_SIZE - 1 then
                write_cell (board_at s3 nb) (row (to move)) (col (to move)) (Some (piece\<lparr>isKing := True\<rparr>))
              else Some (board_at s3 nb))"
              by (simp add: write_cellH_sim simulates_Some)
          qed
        qed
      qed
      with \<open>read_cell (board_at s0 nb) (row (from move)) (col (from move)) = Some cell\<close> Some
      show ?thesis by (simp add: mV inner_def)
    qed
  qed
  then show ?thesis
    by (simp add: mH nb_def [symmetric] option.map_comp o_def option.map_ident)
qed

section \<open>C4: promotion\<close>

lemma Position_eq: "\<lparr>row = r, col = c\<rparr> = pos \<longleftrightarrow> r = row pos \<and> c = col pos"
  by (cases pos) auto

text \<open>
  Claim C4. On an 8x8 grid, for a move whose origin holds a piece and whose destination and
  captured squares are squares of the grid, \<^verbatim>\<open>makeMove\<close> returns a board on which: if the piece
  is a non-king white piece and the destination row is 0, or a non-king black piece and
  the destination row is 7, the destination holds that piece as a king; if the piece is
  already a king, or the destination is not its far rank, any piece at the destination is
  the moved piece itself, king flag unchanged, and it is there whenever the destination is
  neither the origin nor a captured square.
\<close>

theorem makeMove_promotion:
  assumes "wf_board board"
    and "read_cell board (row (from move)) (col (from move)) = Some (Some piece)"
    and "onBoard (to move)"
    and "\<forall>pos\<in>set (capturedSquares move). onBoard pos"
  shows "\<exists>board'. makeMove board move = Some board'
     \<and> (\<not> isKing piece \<and> (type piece = White \<and> row (to move) = 0
                            \<or> type piece = Black \<and> row (to move) = 7)
          \<longrightarrow> read_cell board' (row (to move)) (col (to move))
                = Some (Some \<lparr>type = type piece, isKing = True\<rparr>))
     \<and> (isKing piece \<or> \<not> (type piece = White \<and> row (to move) = 0
                              \<or> type piece = Black \<and> row (to move) = 7)
          \<longrightarrow> (\<forall>piece'. read_cell board' (row (to move)) (col (to move)) = Some (Some piece')
                   \<longrightarrow> piece' = piece)
              \<and> (to move \<noteq> from move \<and> to move \<notin> set (capturedSquares move)
                   \<longrightarrow> read_cell board' (row (to move)) (col (to move)) = Some (Some piece)))"
proof -
  from assms(3) have vt: "isValidPosition (row (to move)) (col (to move))"
    by (simp add: onBoard_def)
  from makeMove_cells [OF assms] obtain board'
    where m: "makeMove board move = Some board'" and wf': "wf_board board'"
      and cells: "\<And>r c. isValidPosition r c \<Longrightarrow>
                 board' ! nat r ! nat c =
                   (if promotes piece move \<and> r = row (to move) \<and> c = col (to move)
                      then Some (piece\<lparr>isKing := True\<rparr>)
                    else if \<lparr>row = r, col = c\<rparr> \<in> set (capturedSquares move) then None
                    else if r = row (from move) \<and> c = col (from move) then None
                    else if r = row (to move) \<and> c = col (to move) then Some piece
                    else board ! nat r ! nat c)"
    by blast
  have king: "isKing piece \<Longrightarrow> piece\<lparr>isKing := True\<rparr> = piece" by (cases piece) simp
  have upd: "piece\<lparr>isKing := True\<rparr> = \<lparr>type = type piece, isKing = True\<rparr>" by (cases piece) simp
  have to_eq: "\<lparr>row = row (to move), col = col (to move)\<rparr> = to move" by simp
  have rd: "read_cell board' (row (to move)) (col (to move)) =
        Some (if promotes piece move then Some (piece\<lparr>isKing := True\<rparr>)
              else if to move \<in> set (capturedSquares move) then None
              else if to move = from move then None
              else Some piece)"
    unfolding read_cell_wf [OF wf' vt] cells [OF vt] to_eq
    by (cases "to move"; cases "from move") auto
  have "promotes piece move \<longleftrightarrow>
          type piece = White \<and> row (to move) = 0 \<or> type piece = Black \<and> row (to move) = 7"
    by (simp add: promotes_def BOARD_SIZE_def)
  with m rd king upd show ?thesis by (auto split: if_splits)
qed

text \<open>The lone white man stepping onto row 0 becomes a king.\<close>

theorem makeMove_promotion_witness:
  "wf_board loneWhiteBoard
   \<and> read_cell loneWhiteBoard (row (from whiteStep)) (col (from whiteStep))
       = Some (Some \<lparr>type = White, isKing = False\<rparr>)
   \<and> onBoard (to whiteStep)
   \<and> (\<exists>board'. makeMove loneWhiteBoard whiteStep = Some board'
         \<and> read_cell board' 0 1 = Some (Some \<lparr>type = White, isKing = True\<rparr>))"
proof -
  have h: "read_cell loneWhiteBoard (row (from whiteStep)) (col (from whiteStep))
             = Some (Some \<lparr>type = White, isKing = False\<rparr>)"
    by (simp add: loneWhiteBoard_def emptyLine_def man_def whiteStep_def read_cell_def)
  have t: "onBoard (to whiteStep)"
    by (simp add: onBoard_def whiteStep_def isValidPosition_def BOARD_SIZE_def)
  have c: "\<forall>pos\<in>set (capturedSquares whiteStep). onBoard pos"
    by (simp add: capturedSquares_def whiteStep_def)
  from makeMove_promotion [OF wf_loneWhiteBoard h t c] wf_loneWhiteBoard h t
  show ?thesis by (auto simp: whiteStep_def)
qed

section \<open>C8: occupied squares stay dark\<close>

lemma directions_diagonal:
  "d \<in> set (directions piece) \<Longrightarrow> (fst d = 1 \<or> fst d = - 1) \<and> (snd d = 1 \<or> snd d = - 1)"
  by (auto simp: directions_def split: if_splits)

lemma tryDirection_regular:
  assumes "tryDirection board position piece d acc = Some acc'"
    and "(fst d = 1 \<or> fst d = - 1) \<and> (snd d = 1 \<or> snd d = - 1)"
    and "\<forall>m\<in>set (fst acc) \<union> set (snd acc). regular position m"
  shows "\<forall>m\<in>set (fst acc') \<union> set (snd acc'). regular position m"
proof -
  let ?nr = "row position + fst d" and ?nc = "col position + snd d"
  let ?jr = "row position + fst d + fst d" and ?jc = "col position + snd d + snd d"
  let ?step = "\<lparr>from = position, to = \<lparr>row = ?nr, col = ?nc\<rparr>, captured = None\<rparr>"
  let ?jump = "\<lparr>from = position, to = \<lparr>row = ?jr, col = ?jc\<rparr>,
                captured = Some [\<lparr>row = ?nr, col = ?nc\<rparr>]\<rparr>"
  have ne1: "\<lparr>row = ?nr, col = ?nc\<rparr> \<noteq> position"
    using assms(2) by (cases position) auto
  have ne2: "\<lparr>row = ?jr, col = ?jc\<rparr> \<noteq> position"
    using assms(2) by (cases position) auto
  have par: "(x + a + (y + b)) mod 2 = (x + y) mod 2 \<and> (x + a + a + (y + b + b)) mod 2 = (x + y) mod 2"
    if "(a = 1 \<or> a = - 1) \<and> (b = 1 \<or> b = - 1)" for x y a b :: int
    using that by presburger
  have par1: "(?nr + ?nc) mod 2 = (row position + col position) mod 2"
    using par [OF assms(2)] by simp
  have par2: "(?jr + ?jc) mod 2 = (row position + col position) mod 2"
    using par [OF assms(2)] by simp
  have step: "regular position ?step" if "isValidPosition ?nr ?nc"
    using that ne1 par1 by (simp add: regular_def onBoard_def capturedSquares_def)
  have jump: "regular position ?jump" if "isValidPosition ?nr ?nc" "isValidPosition ?jr ?jc"
    using that ne2 par2 assms(2) by (auto simp: regular_def onBoard_def capturedSquares_def)
  from assms(1) have "acc' = acc \<or> (isValidPosition ?nr ?nc \<and> acc' = (fst acc @ [?step], snd acc))
      \<or> (isValidPosition ?nr ?nc \<and> isValidPosition ?jr ?jc \<and> acc' = (fst acc, snd acc @ [?jump]))"
    by (auto simp: tryDirection_def Let_def split: if_splits option.splits bind_splits)
  with assms(3) step jump show ?thesis by auto
qed

lemma scanDirections_regular:
  assumes "scanDirections board position piece ds acc = Some acc'"
    and "\<forall>d\<in>set ds. (fst d = 1 \<or> fst d = - 1) \<and> (snd d = 1 \<or> snd d = - 1)"
    and "\<forall>m\<in>set (fst acc) \<union> set (snd acc). regular position m"
  shows "\<forall>m\<in>set (fst acc') \<union> set (snd acc'). regular position m"
  using assms
proof (induction ds arbitrary: acc)
  case Nil
  then show ?case by simp
next
  case (Cons d ds)
  from Cons.prems(1) obtain acc1
    where a1: "tryDirection board position piece d acc = Some acc1"
      and a2: "scanDirections board position piece ds acc1 = Some acc'"
    by (auto split: bind_splits)
  from tryDirection_regular [OF a1] Cons.prems(2,3)
  have "\<forall>m\<in>set (fst acc1) \<union> set (snd acc1). regular position m" by simp
  with Cons.IH [OF a2] Cons.prems(2) show ?case by simp
qed

lemma getValidMoves_regular:
  assumes "getValidMoves board position = Some ms" and "m \<in> set ms"
  shows "regular position m
         \<and> (\<exists>piece. read_cell board (row position) (col position) = Some (Some piece))"
proof -
  from assms obtain piece acc
    where p: "read_cell board (row position) (col position) = Some (Some piece)"
      and s: "scanDirections board position piece (directions piece) ([], []) = Some acc"
      and ms: "ms = (if length (snd acc) > 0 then snd acc else fst acc)"
    by (auto simp: getValidMoves_def split: bind_splits option.splits)
  from scanDirections_regular [OF s] directions_diagonal
  have "\<forall>m\<in>set (fst acc) \<union> set (snd acc). regular position m" by simp
  with ms assms(2) p show ?thesis by (auto split: if_splits)
qed

lemma candidateMoves_member:
  assumes "candidateMoves board side sqs = Some raw" and "m \<in> set raw"
  shows "\<exists>sq\<in>set sqs. \<exists>pms. getValidMoves board \<lparr>row = fst sq, col = snd sq\<rparr> = Some pms \<and> m \<in> set pms"
  using assms
proof (induction sqs arbitrary: raw)
  case Nil
  then show ?case by simp
next
  case (Cons sq sqs)
  from Cons.prems(1) obtain cell here further
    where "read_cell board (fst sq) (snd sq) = Some cell"
      and here: "(if (case cell of None \<Rightarrow> False | Some piece \<Rightarrow> type piece = side)
                  then getValidMoves board \<lparr>row = fst sq, col = snd sq\<rparr> else Some []) = Some here"
      and further: "candidateMoves board side sqs = Some further"
      and raw: "raw = here @ further"
    by (auto split: bind_splits)
  from raw Cons.prems(2) consider "m \<in> set here" | "m \<in> set further" by auto
  then show ?case
  proof cases
    case 1
    with here have "getValidMoves board \<lparr>row = fst sq, col = snd sq\<rparr> = Some here"
      by (auto split: if_splits)
    with 1 show ?thesis by auto
  next
    case 2
    with Cons.IH [OF further] show ?thesis by auto
  qed
qed

lemma getAllValidMoves_member:
  assumes "getAllValidMoves board side = Some ms" and "m \<in> set ms"
  shows "\<exists>position pms. getValidMoves board position = Some pms \<and> m \<in> set pms"
proof -
  from assms(1) obtain raw
    where raw: "candidateMoves board side squares = Some raw"
      and ms: "ms = (if \<exists>m\<in>set raw. isCapture m then filter isCapture raw else raw)"
    by (auto simp: getAllValidMoves_candidates)
  from ms assms(2) have "m \<in> set raw" by (auto split: if_splits)
  with candidateMoves_member [OF raw] show ?thesis by blast
qed

lemma darkOnly_wf:
  assumes "wf_board board"
  shows "darkOnly board \<longleftrightarrow>
           (\<forall>r c. isValidPosition r c \<longrightarrow> board ! nat r ! nat c \<noteq> None \<longrightarrow> (r + c) mod 2 = 1)"
proof -
  have "darkOnly board \<longleftrightarrow>
          (\<forall>sq. isValidPosition (fst sq) (snd sq) \<longrightarrow>
                (case board ! nat (fst sq) ! nat (snd sq) of None \<Rightarrow> True
                 | Some piece \<Rightarrow> (fst sq + snd sq) mod 2 = 1))"
    unfolding darkOnly_def list_all_iff Ball_def
    using read_cell_wf [OF assms] by (auto simp: set_squares)
  then show ?thesis by (auto split: option.splits)
qed

lemma makeMove_generated:
  assumes wf: "wf_board board" and g: "getValidMoves board position = Some ms" and m: "m \<in> set ms"
  shows "\<exists>board'. makeMove board m = Some board' \<and> wf_board board'
           \<and> (darkOnly board \<longrightarrow> darkOnly board')"
proof -
  from getValidMoves_regular [OF g m] obtain piece
    where reg: "regular position m"
      and origin: "read_cell board (row position) (col position) = Some (Some piece)" by blast
  from reg have f: "from m = position" and dest: "onBoard (to m)"
    and capt: "\<forall>pos\<in>set (capturedSquares m). onBoard pos"
    and par: "(row (to m) + col (to m)) mod 2 = (row position + col position) mod 2"
    by (simp_all add: regular_def list_all_iff)
  from origin f have origin': "read_cell board (row (from m)) (col (from m)) = Some (Some piece)"
    by simp
  from makeMove_cells [OF wf origin' dest capt] obtain board'
    where mk: "makeMove board m = Some board'" and wf': "wf_board board'"
      and cells: "\<And>r c. isValidPosition r c \<Longrightarrow>
                 board' ! nat r ! nat c =
                   (if promotes piece m \<and> r = row (to m) \<and> c = col (to m)
                      then Some (piece\<lparr>isKing := True\<rparr>)
                    else if \<lparr>row = r, col = c\<rparr> \<in> set (capturedSquares m) then None
                    else if r = row (from m) \<and> c = col (from m) then None
                    else if r = row (to m) \<and> c = col (to m) then Some piece
                    else board ! nat r ! nat c)"
    by blast
  have "darkOnly board'" if dark: "darkOnly board"
  proof -
    from read_cell_Some_Some [OF wf origin]
    have vp: "isValidPosition (row position) (col position)"
      and "board ! nat (row position) ! nat (col position) \<noteq> None" by simp_all
    with dark have "(row position + col position) mod 2 = 1"
      by (simp add: darkOnly_wf [OF wf])
    with par have pt: "(row (to m) + col (to m)) mod 2 = 1" by simp
    have "(r + c) mod 2 = 1" if v: "isValidPosition r c" and occ: "board' ! nat r ! nat c \<noteq> None"
      for r c
    proof (cases "r = row (to m) \<and> c = col (to m)")
      case True
      with pt show ?thesis by simp
    next
      case False
      with occ cells [OF v] have "board ! nat r ! nat c \<noteq> None"
        by (auto split: if_splits)
      with dark v show ?thesis by (simp add: darkOnly_wf [OF wf])
    qed
    then show ?thesis by (simp add: darkOnly_wf [OF wf'])
  qed
  with mk wf' show ?thesis by blast
qed

lemma makeMove_generated_side:
  assumes "wf_board board" and "getAllValidMoves board side = Some ms" and "m \<in> set ms"
  shows "\<exists>board'. makeMove board m = Some board' \<and> wf_board board'
           \<and> (darkOnly board \<longrightarrow> darkOnly board')"
  using getAllValidMoves_member [OF assms(2,3)] makeMove_generated [OF assms(1)] by blast

lemma darkOnly_createInitialBoard: "darkOnly createInitialBoard"
  unfolding darkOnly_def squares_eq createInitialBoard_eq
  by (simp add: read_cell_def man_def)

text \<open>
  Claim C8. The initial board has every occupied square dark; and on an 8x8 grid with every
  occupied square dark, applying a move produced by \<^verbatim>\<open>getValidMoves\<close> for some square or
  by \<^verbatim>\<open>getAllValidMoves\<close> for some side returns an 8x8 grid with every occupied square dark.
\<close>

theorem makeMove_dark_squares:
  "darkOnly createInitialBoard
   \<and> (wf_board board \<and> darkOnly board
      \<and> (getValidMoves board position = Some moves \<or> getAllValidMoves board side = Some moves)
      \<and> move \<in> set moves
      \<longrightarrow> (\<exists>board'. makeMove board move = Some board' \<and> wf_board board' \<and> darkOnly board'))"
  using darkOnly_createInitialBoard makeMove_generated [of board position moves move]
    makeMove_generated_side [of board side moves move]
  by blast

text \<open>The opening step of the white man of (5, 0), the only move of that piece.\<close>

theorem makeMove_dark_squares_witness:
  "wf_board createInitialBoard \<and> darkOnly createInitialBoard
   \<and> getValidMoves createInitialBoard \<lparr>row = 5, col = 0\<rparr> = Some [openingStep]
   \<and> openingStep \<in> set [openingStep]
   \<and> (\<exists>board'. makeMove createInitialBoard openingStep = Some board'
         \<and> wf_board board' \<and> darkOnly board')"
proof -
  have g: "getValidMoves createInitialBoard \<lparr>row = 5, col = 0\<rparr> = Some [openingStep]"
    unfolding createInitialBoard_eq
    by (simp add: getValidMoves_def read_cell_def man_def directions_def tryDirection_def
        isValidPosition_def BOARD_SIZE_def openingStep_def Let_def)
  from makeMove_dark_squares [of createInitialBoard "\<lparr>row = 5, col = 0\<rparr>" "[openingStep]" White openingStep]
    wf_createInitialBoard g
  show ?thesis by simp
qed

section \<open>C3: the argument is left unchanged, and what the returned board holds\<close>

lemma board_at_take:
  assumes "valid_ref store bref" and "take (length store) store' = store"
  shows "board_at store' bref = board_at store bref"
proof -
  have "store' ! a = store ! a" if "a < length store" for a
    using that assms(2) by (metis nth_take)
  with assms(1) show ?thesis
    by (simp add: board_at_def valid_ref_def list_all_iff)
qed

text \<open>
  Whenever the value-level function returns a grid, the run on the store returns too, its
  result denotes that grid, and no array that existed before the call has changed.
\<close>

lemma makeMoveH_returns:
  assumes "valid_ref store board" and "makeMove (board_at store board) move = Some board'"
  shows "\<exists>store' newBoard. makeMoveH store board move = Some (store', newBoard)
           \<and> board_at store' newBoard = board'
           \<and> take (length store) store' = store
           \<and> board_at store' board = board_at store board
           \<and> freshRef (length store) store' newBoard"
proof -
  from makeMoveH_sim [OF assms(1), of move] assms(2) obtain store' newBoard
    where r: "makeMoveH store board move = Some (store', newBoard)"
      and b: "board' = board_at store' newBoard"
      and t: "take (length store) store' = store"
      and f: "freshRef (length store) store' newBoard"
    by (cases "makeMoveH store board move") (auto simp: simulates_def)
  with board_at_take [OF assms(1) t] show ?thesis by blast
qed

text \<open>On a grid, a move whose squares are squares of the grid is applied without an error.\<close>

lemma makeMove_on_grid:
  assumes "wf_board board" and "onBoard (from move)" and "onBoard (to move)"
    and "\<forall>pos\<in>set (capturedSquares move). onBoard pos"
  shows "\<exists>board'. makeMove board move = Some board'"
proof (cases "board ! nat (row (from move)) ! nat (col (from move))")
  case None
  with assms(1,2) have "read_cell board (row (from move)) (col (from move)) = Some None"
    by (simp add: read_cell_wf onBoard_def)
  then show ?thesis by (simp add: makeMove_empty_origin)
next
  case (Some piece)
  with assms(1,2) have "read_cell board (row (from move)) (col (from move)) = Some (Some piece)"
    by (simp add: read_cell_wf onBoard_def)
  from makeMove_cells [OF assms(1) this assms(3,4)] show ?thesis by blast
qed

text \<open>
  What the returned board holds when the destination is neither the origin nor a captured
  square.
\<close>

lemma makeMove_effect:
  assumes wf: "wf_board board"
    and origin: "read_cell board (row (from move)) (col (from move)) = Some (Some piece)"
    and dest: "onBoard (to move)"
    and capt: "\<forall>pos\<in>set (capturedSquares move). onBoard pos"
    and ne: "to move \<noteq> from move"
    and nc: "to move \<notin> set (capturedSquares move)"
  shows "\<exists>board'. makeMove board move = Some board'
           \<and> read_cell board' (row (to move)) (col (to move))
               = Some (Some (if promotes piece move then piece\<lparr>isKing := True\<rparr> else piece))
           \<and> read_cell board' (row (from move)) (col (from move)) = Some None
           \<and> (\<forall>pos\<in>set (capturedSquares move). read_cell board' (row pos) (col pos) = Some None)
           \<and> (\<forall>r c. isValidPosition r c \<and> \<lparr>row = r, col = c\<rparr> \<noteq> to move
                 \<and> \<lparr>row = r, col = c\<rparr> \<noteq> from move
                 \<and> \<lparr>row = r, col = c\<rparr> \<notin> set (capturedSquares move)
                 \<longrightarrow> read_cell board' r c = read_cell board r c)"
proof -
  from makeMove_cells [OF wf origin dest capt] obtain board'
    where m: "makeMove board move = Some board'" and wf': "wf_board board'"
      and cells: "\<And>r c. isValidPosition r c \<Longrightarrow>
                 board' ! nat r ! nat c =
                   (if promotes piece move \<and> r = row (to move) \<and> c = col (to move)
                      then Some (piece\<lparr>isKing := True\<rparr>)
                    else if \<lparr>row = r, col = c\<rparr> \<in> set (capturedSquares move) then None
                    else if r = row (from move) \<and> c = col (from move) then None
                    else if r = row (to move) \<and> c = col (to move) then Some piece
                    else board ! nat r ! nat c)"
    by blast
  from read_cell_Some_Some [OF wf origin]
  have vf: "isValidPosition (row (from move)) (col (from move))" by simp
  from dest have vt: "isValidPosition (row (to move)) (col (to move))" by (simp add: onBoard_def)
  have rd: "read_cell board' r c = Some (board' ! nat r ! nat c)" if "isValidPosition r c" for r c
    using read_cell_wf [OF wf' that] .
  have to_eq: "\<lparr>row = row (to move), col = col (to move)\<rparr> = to move" by simp
  have ne': "\<not> (row (to move) = row (from move) \<and> col (to move) = col (from move))"
    using ne by (cases "to move"; cases "from move") auto
  have 1: "read_cell board' (row (to move)) (col (to move))
             = Some (Some (if promotes piece move then piece\<lparr>isKing := True\<rparr> else piece))"
    unfolding rd [OF vt] cells [OF vt] to_eq using ne' nc by auto
  have 2: "read_cell board' (row (from move)) (col (from move)) = Some None"
    unfolding rd [OF vf] cells [OF vf] using ne' by auto
  have 3: "read_cell board' (row pos) (col pos) = Some None" if "pos \<in> set (capturedSquares move)" for pos
  proof -
    from that capt have v: "isValidPosition (row pos) (col pos)" by (simp add: onBoard_def)
    from that nc have "\<not> (row pos = row (to move) \<and> col pos = col (to move))"
      by (metis Position_eq)
    moreover have pos_eq: "\<lparr>row = row pos, col = col pos\<rparr> = pos" by simp
    ultimately show ?thesis unfolding rd [OF v] cells [OF v] pos_eq using that by auto
  qed
  have 4: "read_cell board' r c = read_cell board r c"
    if "isValidPosition r c \<and> \<lparr>row = r, col = c\<rparr> \<noteq> to move \<and> \<lparr>row = r, col = c\<rparr> \<noteq> from move
        \<and> \<lparr>row = r, col = c\<rparr> \<notin> set (capturedSquares move)" for r c
  proof -
    from that have v: "isValidPosition r c" by simp
    from that have "\<not> (r = row (to move) \<and> c = col (to move))"
      "\<not> (r = row (from move) \<and> c = col (from move))"
      by (simp_all add: Position_eq)
    with that show ?thesis unfolding rd [OF v] cells [OF v] read_cell_wf [OF wf v] by auto
  qed
  from m 1 2 3 4 show ?thesis by blast
qed

text \<open>
  Claim C3. Run on a store holding an 8x8 grid, \<^verbatim>\<open>makeMove\<close> returns for every move whose squares
  are squares of the grid, and changes no array that existed before the call: the board
  passed in denotes the same grid afterwards, and the rows of the returned board are arrays
  allocated by the call. For every move the generator produces for the board
  (\<^verbatim>\<open>getValidMoves\<close> for some square or \<^verbatim>\<open>getAllValidMoves\<close> for some side), which is the
  precondition of the move applicator, the origin holds a piece and the returned board has
  that piece at the destination (as a king when lines 131-135 promote it), an empty origin,
  every captured square empty, and every other square of the grid as before.
\<close>

theorem makeMoveH_frame_and_effect:
  assumes "valid_ref store board" and "wf_board (board_at store board)"
  shows "(onBoard (from move) \<and> onBoard (to move) \<and> (\<forall>pos\<in>set (capturedSquares move). onBoard pos)
          \<longrightarrow> (\<exists>store' newBoard. makeMoveH store board move = Some (store', newBoard)
                \<and> take (length store) store' = store
                \<and> board_at store' board = board_at store board
                \<and> freshRef (length store) store' newBoard
                \<and> makeMove (board_at store board) move = Some (board_at store' newBoard)))
       \<and> ((getValidMoves (board_at store board) position = Some moves
            \<or> getAllValidMoves (board_at store board) side = Some moves)
          \<and> move \<in> set moves
          \<longrightarrow> (\<exists>store' newBoard piece. makeMoveH store board move = Some (store', newBoard)
                \<and> take (length store) store' = store
                \<and> board_at store' board = board_at store board
                \<and> freshRef (length store) store' newBoard
                \<and> read_cell (board_at store board) (row (from move)) (col (from move))
                    = Some (Some piece)
                \<and> read_cell (board_at store' newBoard) (row (to move)) (col (to move))
                    = Some (Some (if promotes piece move then piece\<lparr>isKing := True\<rparr> else piece))
                \<and> read_cell (board_at store' newBoard) (row (from move)) (col (from move)) = Some None
                \<and> (\<forall>pos\<in>set (capturedSquares move).
                      read_cell (board_at store' newBoard) (row pos) (col pos) = Some None)
                \<and> (\<forall>r c. isValidPosition r c \<and> \<lparr>row = r, col = c\<rparr> \<noteq> to move
                      \<and> \<lparr>row = r, col = c\<rparr> \<noteq> from move
                      \<and> \<lparr>row = r, col = c\<rparr> \<notin> set (capturedSquares move)
                      \<longrightarrow> read_cell (board_at store' newBoard) r c
                           = read_cell (board_at store board) r c)))"
proof (intro conjI impI)
  assume h: "onBoard (from move) \<and> onBoard (to move)
             \<and> (\<forall>pos\<in>set (capturedSquares move). onBoard pos)"
  with makeMove_on_grid [OF assms(2), of move] obtain board'
    where m: "makeMove (board_at store board) move = Some board'" by blast
  from makeMoveH_returns [OF assms(1) m] m
  show "\<exists>store' newBoard. makeMoveH store board move = Some (store', newBoard)
                \<and> take (length store) store' = store
                \<and> board_at store' board = board_at store board
                \<and> freshRef (length store) store' newBoard
                \<and> makeMove (board_at store board) move = Some (board_at store' newBoard)"
    by auto
next
  let ?b = "board_at store board"
  assume g: "(getValidMoves ?b position = Some moves \<or> getAllValidMoves ?b side = Some moves)
             \<and> move \<in> set moves"
  then obtain origin pms where pms: "getValidMoves ?b origin = Some pms" "move \<in> set pms"
    using getAllValidMoves_member [of ?b side moves move] by blast
  from getValidMoves_regular [OF pms] obtain piece
    where reg: "regular origin move"
      and o: "read_cell ?b (row origin) (col origin) = Some (Some piece)" by blast
  from reg have f: "from move = origin" and dest: "onBoard (to move)"
    and capt: "\<forall>pos\<in>set (capturedSquares move). onBoard pos"
    and ne: "to move \<noteq> from move" and nc: "to move \<notin> set (capturedSquares move)"
    by (simp_all add: regular_def list_all_iff)
  from o f have o': "read_cell ?b (row (from move)) (col (from move)) = Some (Some piece)"
    by simp
  from makeMove_effect [OF assms(2) o' dest capt ne nc] obtain board'
    where m: "makeMove ?b move = Some board'"
      and 1: "read_cell board' (row (to move)) (col (to move))
               = Some (Some (if promotes piece move then piece\<lparr>isKing := True\<rparr> else piece))"
      and 2: "read_cell board' (row (from move)) (col (from move)) = Some None"
      and 3: "\<forall>pos\<in>set (capturedSquares move). read_cell board' (row pos) (col pos) = Some None"
      and 4: "\<forall>r c. isValidPosition r c \<and> \<lparr>row = r, col = c\<rparr> \<noteq> to move
                 \<and> \<lparr>row = r, col = c\<rparr> \<noteq> from move
                 \<and> \<lparr>row = r, col = c\<rparr> \<notin> set (capturedSquares move)
                 \<longrightarrow> read_cell board' r c = read_cell ?b r c"
    by blast
  from makeMoveH_returns [OF assms(1) m] obtain store' newBoard
    where r: "makeMoveH store board move = Some (store', newBoard)"
      and b: "board_at store' newBoard = board'"
      and t: "take (length store) store' = store"
      and u: "board_at store' board = board_at store board"
      and fr: "freshRef (length store) store' newBoard"
    by blast
  from r t u fr o' 1 [folded b] 2 [folded b] 3 [folded b] 4 [folded b]
  show "\<exists>store' newBoard piece. makeMoveH store board move = Some (store', newBoard)
                \<and> take (length store) store' = store
                \<and> board_at store' board = board_at store board
                \<and> freshRef (length store) store' newBoard
                \<and> read_cell (board_at store board) (row (from move)) (col (from move))
                    = Some (Some piece)
                \<and> read_cell (board_at store' newBoard) (row (to move)) (col (to move))
                    = Some (Some (if promotes piece move then piece\<lparr>isKing := True\<rparr> else piece))
                \<and> read_cell (board_at store' newBoard) (row (from move)) (col (from move)) = Some None
                \<and> (\<forall>pos\<in>set (capturedSquares move).
                      read_cell (board_at store' newBoard) (row pos) (col pos) = Some None)
                \<and> (\<forall>r c. isValidPosition r c \<and> \<lparr>row = r, col = c\<rparr> \<noteq> to move
                      \<and> \<lparr>row = r, col = c\<rparr> \<noteq> from move
                      \<and> \<lparr>row = r, col = c\<rparr> \<notin> set (capturedSquares move)
                      \<longrightarrow> read_cell (board_at store' newBoard) r c
                           = read_cell (board_at store board) r c)"
    by blast
qed

lemma initial_at: "board_at createInitialBoard initialRef = createInitialBoard"
  by (simp add: board_at_def initialRef_def createInitialBoard_eq)

text \<open>
  The opening step of the white man of (5, 0) to (4, 1), the only move the generator
  produces for that square of the initial board.
\<close>

theorem makeMoveH_frame_and_effect_witness:
  "valid_ref createInitialBoard initialRef
   \<and> wf_board (board_at createInitialBoard initialRef)
   \<and> getValidMoves (board_at createInitialBoard initialRef) \<lparr>row = 5, col = 0\<rparr> = Some [openingStep]
   \<and> openingStep \<in> set [openingStep]
   \<and> onBoard (from openingStep) \<and> onBoard (to openingStep)
   \<and> (\<exists>store' newBoard. makeMoveH createInitialBoard initialRef openingStep = Some (store', newBoard)
         \<and> take (length createInitialBoard) store' = createInitialBoard
         \<and> board_at store' initialRef = board_at createInitialBoard initialRef
         \<and> read_cell (board_at store' newBoard) 4 1 = Some (Some \<lparr>type = White, isKing = False\<rparr>)
         \<and> read_cell (board_at store' newBoard) 5 0 = Some None)"
proof -
  let ?p = "\<lparr>type = White, isKing = False\<rparr>"
  have v: "valid_ref createInitialBoard initialRef"
    by (simp add: valid_ref_def initialRef_def createInitialBoard_eq)
  have wf: "wf_board (board_at createInitialBoard initialRef)"
    by (simp add: initial_at wf_createInitialBoard)
  have "getValidMoves createInitialBoard \<lparr>row = 5, col = 0\<rparr> = Some [openingStep]"
    unfolding createInitialBoard_eq
    by (simp add: getValidMoves_def read_cell_def man_def directions_def tryDirection_def
        isValidPosition_def BOARD_SIZE_def openingStep_def Let_def)
  then have g: "getValidMoves (board_at createInitialBoard initialRef) \<lparr>row = 5, col = 0\<rparr>
                  = Some [openingStep]"
    by (simp only: initial_at)
  have o: "read_cell (board_at createInitialBoard initialRef) (row (from openingStep))
             (col (from openingStep)) = Some (Some ?p)"
    unfolding initial_at
    by (simp add: createInitialBoard_eq openingStep_def read_cell_def man_def)
  have d: "onBoard (from openingStep)" "onBoard (to openingStep)"
    by (simp_all add: onBoard_def openingStep_def isValidPosition_def BOARD_SIZE_def)
  have np: "\<not> promotes ?p openingStep" by (simp add: promotes_def openingStep_def)
  from makeMoveH_frame_and_effect [OF v wf, of openingStep "\<lparr>row = 5, col = 0\<rparr>" "[openingStep]" White] g
  obtain store' newBoard piece
    where r: "makeMoveH createInitialBoard initialRef openingStep = Some (store', newBoard)"
      and t: "take (length createInitialBoard) store' = createInitialBoard"
      and u: "board_at store' initialRef = board_at createInitialBoard initialRef"
      and p: "read_cell (board_at createInitialBoard initialRef) (row (from openingStep))
                (col (from openingStep)) = Some (Some piece)"
      and 1: "read_cell (board_at store' newBoard) (row (to openingStep)) (col (to openingStep))
                = Some (Some (if promotes piece openingStep then piece\<lparr>isKing := True\<rparr> else piece))"
      and 2: "read_cell (board_at store' newBoard) (row (from openingStep)) (col (from openingStep))
                = Some None"
    by auto
  from o p have "piece = ?p" by simp
  with r t u 1 2 np v wf g d show ?thesis by (auto simp: openingStep_def)
qed

section \<open>C2: pruning does not change the score\<close>

lemma NegInfinity_least: "NegInfinity \<le> x"
  by (simp add: less_eq_number_def)

lemma PosInfinity_greatest: "x \<le> PosInfinity"
  by (cases x) (simp_all add: less_eq_number_def)

lemma sumPieces_total:
  assumes "wf_board board" and "\<forall>sq\<in>set sqs. isValidPosition (fst sq) (snd sq)"
  shows "\<exists>total. sumPieces board sqs score = Some total"
  using assms(2)
proof (induction sqs arbitrary: score)
  case Nil
  then show ?case by simp
next
  case (Cons sq sqs)
  then show ?case
    by (simp add: read_cell_wf [OF assms(1)] Let_def split: option.splits)
qed

lemma evaluateBoard_total: "wf_board board \<Longrightarrow> \<exists>total. evaluateBoard board = Some total"
  unfolding evaluateBoard_def by (rule sumPieces_total) (simp_all add: set_squares)

lemma checkWinner_total: "wf_board board \<Longrightarrow> \<exists>winner. checkWinner board = Some winner"
  using getAllValidMoves_total [of board White] getAllValidMoves_total [of board Black]
    checkWinner_wf [of board] by blast

lemma maxAll_total_ge:
  assumes "\<forall>m\<in>set ms. \<exists>b'. makeMove board m = Some b' \<and> (\<exists>v. plain b' = Some v)"
  shows "\<exists>V. maxAll plain board ms best = Some V \<and> best \<le> V"
  using assms
proof (induction ms arbitrary: best)
  case Nil
  then show ?case by simp
next
  case (Cons m ms)
  from Cons.prems obtain b' v where b': "makeMove board m = Some b'" "plain b' = Some v" by auto
  from Cons.IH [of "max best v"] Cons.prems obtain V
    where "maxAll plain board ms (max best v) = Some V" "max best v \<le> V" by auto
  with b' show ?case by auto
qed

lemma minAll_total_le:
  assumes "\<forall>m\<in>set ms. \<exists>b'. makeMove board m = Some b' \<and> (\<exists>v. plain b' = Some v)"
  shows "\<exists>V. minAll plain board ms best = Some V \<and> V \<le> best"
  using assms
proof (induction ms arbitrary: best)
  case Nil
  then show ?case by simp
next
  case (Cons m ms)
  from Cons.prems obtain b' v where b': "makeMove board m = Some b'" "plain b' = Some v" by auto
  from Cons.IH [of "min best v"] Cons.prems obtain V
    where "minAll plain board ms (min best v) = Some V" "V \<le> min best v" by auto
  with b' show ?case by auto
qed

lemma maxLoop_agrees:
  assumes children: "\<forall>m\<in>set ms. \<exists>b'. makeMove board m = Some b' \<and> wf_board b'"
    and rec: "\<And>b' a. wf_board b' \<Longrightarrow> a < beta \<Longrightarrow>
                \<exists>v r. plain b' = Some v \<and> recurse b' a beta = Some r \<and> agrees a beta v r"
    and window: "alpha0 < beta"
    and inv: "agrees alpha0 beta exactSoFar maxEval" "maxEval < beta"
  shows "\<exists>V R. maxAll plain board ms exactSoFar = Some V
           \<and> maxLoop recurse board ms maxEval (max alpha0 maxEval) beta = Some R
           \<and> agrees alpha0 beta V R"
  using children inv
proof (induction ms arbitrary: exactSoFar maxEval)
  case Nil
  then show ?case by simp
next
  case (Cons m ms)
  let ?alpha = "max alpha0 maxEval"
  from Cons.prems(1) obtain b' where b': "makeMove board m = Some b'" "wf_board b'" by auto
  from window Cons.prems(3) have a: "?alpha < beta" by simp
  from rec [OF b'(2) a] obtain v r
    where v: "plain b' = Some v" and r: "recurse b' ?alpha beta = Some r"
      and ag: "agrees ?alpha beta v r" by blast
  have rest: "\<forall>m\<in>set ms. \<exists>b'. makeMove board m = Some b' \<and> (\<exists>v. plain b' = Some v)"
  proof
    fix m' assume "m' \<in> set ms"
    with Cons.prems(1) obtain b2 where b2: "makeMove board m' = Some b2" "wf_board b2" by auto
    from rec [OF b2(2) a] b2(1) show "\<exists>b'. makeMove board m' = Some b' \<and> (\<exists>v. plain b' = Some v)"
      by blast
  qed
  show ?case
  proof (cases "beta \<le> max ?alpha r")
    case True
    from maxAll_total_ge [OF rest, of "max exactSoFar v"] obtain V
      where V: "maxAll plain board ms (max exactSoFar v) = Some V" "max exactSoFar v \<le> V" by blast
    from True a have "beta \<le> r" by (auto simp: max_def split: if_splits)
    with ag have "r \<le> v" by (simp add: agrees_def)
    with V(2) have "r \<le> V" by (auto simp: max_def split: if_splits)
    with \<open>beta \<le> r\<close> Cons.prems(3) window have "agrees alpha0 beta V (max maxEval r)"
      by (auto simp: agrees_def max_def)
    with b' v r V(1) True show ?thesis by (simp add: Let_def)
  next
    case False
    then have lt: "max maxEval r < beta" by (auto simp: max_def split: if_splits)
    have inv': "agrees alpha0 beta (max exactSoFar v) (max maxEval r)"
      using Cons.prems(2,3) ag lt window
      unfolding agrees_def max_def by (auto split: if_splits)
    have alpha': "max ?alpha r = max alpha0 (max maxEval r)"
      by (simp add: max.assoc)
    from Cons.IH [OF _ inv' lt] Cons.prems(1) obtain V R
      where "maxAll plain board ms (max exactSoFar v) = Some V"
        and "maxLoop recurse board ms (max maxEval r) (max alpha0 (max maxEval r)) beta = Some R"
        and "agrees alpha0 beta V R" by auto
    with b' v r False alpha' show ?thesis by (simp add: Let_def)
  qed
qed

lemma minLoop_agrees:
  assumes children: "\<forall>m\<in>set ms. \<exists>b'. makeMove board m = Some b' \<and> wf_board b'"
    and rec: "\<And>b' b. wf_board b' \<Longrightarrow> alpha < b \<Longrightarrow>
                \<exists>v r. plain b' = Some v \<and> recurse b' alpha b = Some r \<and> agrees alpha b v r"
    and window: "alpha < beta0"
    and inv: "agrees alpha beta0 exactSoFar minEval" "alpha < minEval"
  shows "\<exists>V R. minAll plain board ms exactSoFar = Some V
           \<and> minLoop recurse board ms minEval alpha (min beta0 minEval) = Some R
           \<and> agrees alpha beta0 V R"
  using children inv
proof (induction ms arbitrary: exactSoFar minEval)
  case Nil
  then show ?case by simp
next
  case (Cons m ms)
  let ?beta = "min beta0 minEval"
  from Cons.prems(1) obtain b' where b': "makeMove board m = Some b'" "wf_board b'" by auto
  from window Cons.prems(3) have a: "alpha < ?beta" by simp
  from rec [OF b'(2) a] obtain v r
    where v: "plain b' = Some v" and r: "recurse b' alpha ?beta = Some r"
      and ag: "agrees alpha ?beta v r" by blast
  have rest: "\<forall>m\<in>set ms. \<exists>b'. makeMove board m = Some b' \<and> (\<exists>v. plain b' = Some v)"
  proof
    fix m' assume "m' \<in> set ms"
    with Cons.prems(1) obtain b2 where b2: "makeMove board m' = Some b2" "wf_board b2" by auto
    from rec [OF b2(2) a] b2(1) show "\<exists>b'. makeMove board m' = Some b' \<and> (\<exists>v. plain b' = Some v)"
      by blast
  qed
  show ?case
  proof (cases "min ?beta r \<le> alpha")
    case True
    from minAll_total_le [OF rest, of "min exactSoFar v"] obtain V
      where V: "minAll plain board ms (min exactSoFar v) = Some V" "V \<le> min exactSoFar v" by blast
    from True a have "r \<le> alpha" by (auto simp: min_def split: if_splits)
    with ag have "v \<le> r" by (simp add: agrees_def)
    with V(2) have "V \<le> r" by (auto simp: min_def split: if_splits)
    with \<open>r \<le> alpha\<close> Cons.prems(3) window have "agrees alpha beta0 V (min minEval r)"
      by (auto simp: agrees_def min_def)
    with b' v r V(1) True show ?thesis by (simp add: Let_def)
  next
    case False
    then have lt: "alpha < min minEval r" by (auto simp: min_def split: if_splits)
    have inv': "agrees alpha beta0 (min exactSoFar v) (min minEval r)"
      using Cons.prems(2,3) ag lt window
      unfolding agrees_def min_def by (auto split: if_splits)
    have beta': "min ?beta r = min beta0 (min minEval r)"
      by (simp add: min.assoc)
    from Cons.IH [OF _ inv' lt] Cons.prems(1) obtain V R
      where "minAll plain board ms (min exactSoFar v) = Some V"
        and "minLoop recurse board ms (min minEval r) alpha (min beta0 (min minEval r)) = Some R"
        and "agrees alpha beta0 V R" by auto
    with b' v r False beta' show ?thesis by (simp add: Let_def)
  qed
qed

lemma agrees_refl: "agrees alpha beta v v"
  by (simp add: agrees_def)

lemma children_wf:
  assumes "wf_board board" and "getAllValidMoves board side = Some ms"
  shows "\<forall>m\<in>set ms. \<exists>b'. makeMove board m = Some b' \<and> wf_board b'"
  using makeMove_generated_side [OF assms] by blast

lemma minimax_agrees:
  assumes "wf_board board" and "alpha < beta"
  shows "\<exists>v r. exhaustiveMinimax depth board isMaximizing = Some v
           \<and> minimax depth board alpha beta isMaximizing = Some r
           \<and> agrees alpha beta v r"
  using assms
proof (induction depth arbitrary: board alpha beta isMaximizing)
  case 0
  from checkWinner_total [OF "0.prems"(1)] obtain winner
    where w: "checkWinner board = Some winner" by blast
  from evaluateBoard_total [OF "0.prems"(1)] obtain total
    where t: "evaluateBoard board = Some total" by blast
  from w t show ?case by (simp add: agrees_refl)
next
  case (Suc depth)
  from checkWinner_total [OF Suc.prems(1)] obtain winner
    where w: "checkWinner board = Some winner" by blast
  let ?side = "if isMaximizing then Black else White"
  from getAllValidMoves_total [OF Suc.prems(1)] obtain ms
    where ms: "getAllValidMoves board ?side = Some ms" by blast
  note ch = children_wf [OF Suc.prems(1) ms]
  show ?case
  proof (cases "winner = Black \<or> winner = White \<or> ms = []")
    case True
    with w ms show ?thesis by (auto simp: agrees_refl)
  next
    case False
    show ?thesis
    proof (cases isMaximizing)
      case True
      have inv: "agrees alpha beta NegInfinity NegInfinity" by (rule agrees_refl)
      have lt: "NegInfinity < beta"
        using Suc.prems(2) NegInfinity_least [of alpha] by simp
      from maxLoop_agrees [where recurse = "\<lambda>b a bt. minimax depth b a bt False"
          and plain = "\<lambda>b. exhaustiveMinimax depth b False", OF ch _ Suc.prems(2) inv lt]
        Suc.IH
      obtain V R
        where "maxAll (\<lambda>b. exhaustiveMinimax depth b False) board ms NegInfinity = Some V"
          and "maxLoop (\<lambda>b a bt. minimax depth b a bt False) board ms NegInfinity
                 (max alpha NegInfinity) beta = Some R"
          and "agrees alpha beta V R" by blast
      moreover have "max alpha NegInfinity = alpha"
        using NegInfinity_least [of alpha] by (simp add: max_def)
      ultimately show ?thesis using w ms False True by auto
    next
      case notMax: False
      have inv: "agrees alpha beta PosInfinity PosInfinity" by (rule agrees_refl)
      have lt: "alpha < PosInfinity"
        using Suc.prems(2) PosInfinity_greatest [of beta] by simp
      from minLoop_agrees [where recurse = "\<lambda>b a bt. minimax depth b a bt True"
          and plain = "\<lambda>b. exhaustiveMinimax depth b True", OF ch _ Suc.prems(2) inv lt]
        Suc.IH
      obtain V R
        where "minAll (\<lambda>b. exhaustiveMinimax depth b True) board ms PosInfinity = Some V"
          and "minLoop (\<lambda>b a bt. minimax depth b a bt True) board ms PosInfinity alpha
                 (min beta PosInfinity) = Some R"
          and "agrees alpha beta V R" by blast
      moreover have "min beta PosInfinity = beta"
        using PosInfinity_greatest [of beta] by (simp add: min_def)
      ultimately show ?thesis using w ms False notMax by auto
    qed
  qed
qed

lemma minimax_returns:
  assumes "wf_board board"
  shows "\<exists>score. minimax depth board NegInfinity PosInfinity isMaximizing = Some score"
proof -
  have "NegInfinity < PosInfinity" by (simp add: less_number_def)
  from minimax_agrees [OF assms this, of depth isMaximizing] show ?thesis by blast
qed

text \<open>
  Claim C2. On every 8x8 grid, for every depth and either value of the flag, \<^verbatim>\<open>minimax\<close>
  called with the window \<open>(-\<infinity>, +\<infinity>)\<close> returns, and returns the score of the exhaustive
  search at the same depth.
\<close>

theorem minimax_full_window:
  assumes "wf_board board"
  shows "\<exists>score. minimax depth board NegInfinity PosInfinity isMaximizing = Some score
           \<and> exhaustiveMinimax depth board isMaximizing = Some score"
proof -
  have "NegInfinity < PosInfinity" by (simp add: less_number_def)
  from minimax_agrees [OF assms this, of depth isMaximizing] obtain v r
    where v: "exhaustiveMinimax depth board isMaximizing = Some v"
      and r: "minimax depth board NegInfinity PosInfinity isMaximizing = Some r"
      and ag: "agrees NegInfinity PosInfinity v r" by blast
  have "r = v"
  proof (cases "r = NegInfinity \<or> r = PosInfinity")
    case True
    with ag NegInfinity_least [of v] PosInfinity_greatest [of v] show ?thesis
      by (auto simp: agrees_def)
  next
    case False
    then have "NegInfinity < r \<and> r < PosInfinity"
      using NegInfinity_least [of r] PosInfinity_greatest [of r] by (auto simp: less_le)
    with ag show ?thesis by (simp add: agrees_def)
  qed
  with v r show ?thesis by simp
qed

text \<open>Depth 3 on the initial board, black to move.\<close>

theorem minimax_full_window_witness:
  "wf_board createInitialBoard
   \<and> (\<exists>score. minimax 3 createInitialBoard NegInfinity PosInfinity True = Some score
         \<and> exhaustiveMinimax 3 createInitialBoard True = Some score)"
  using minimax_full_window [OF wf_createInitialBoard, of 3 True] wf_createInitialBoard by simp

section \<open>C9: the difficulty policy\<close>

lemma randomIndex_range:
  assumes "0 \<le> rnd" and "rnd < 1" and "xs \<noteq> []"
  shows "0 \<le> randomIndex rnd xs \<and> randomIndex rnd xs < int (length xs)"
proof -
  have pos: "0 < real (length xs)" using assms(3) by simp
  have "0 \<le> rnd * real (length xs)" using assms(1) by simp
  moreover have "rnd * real (length xs) < real (length xs)"
    using assms(2) pos by simp
  ultimately show ?thesis
    unfolding randomIndex_def by (simp add: floor_less_iff)
qed

lemma elementAt_random:
  assumes "0 \<le> rnd" and "rnd < 1" and "xs \<noteq> []"
  shows "\<exists>x. elementAt xs (randomIndex rnd xs) = Some x \<and> x \<in> set xs"
proof -
  from randomIndex_range [OF assms] have "nat (randomIndex rnd xs) < length xs"
    and "0 \<le> randomIndex rnd xs \<and> randomIndex rnd xs < int (length xs)"
    by (simp_all add: nat_less_iff)
  then show ?thesis by (simp add: elementAt_def)
qed

lemma getRandomMove_member:
  assumes "0 \<le> rnd" and "rnd < 1" and "moves \<noteq> []"
  shows "\<exists>m. getRandomMove moves rnd = Some m \<and> m \<in> set moves"
  unfolding getRandomMove_def by (rule elementAt_random [OF assms])

lemma getBasicMove_member:
  assumes "0 \<le> rnd" and "rnd < 1" and "moves \<noteq> []"
  shows "\<exists>m. getBasicMove board moves rnd = Some m \<and> m \<in> set moves"
proof -
  let ?captures = "filter isCapture moves"
  let ?kingMoves = "filter (\<lambda>m. row (to m) = BOARD_SIZE - 1) moves"
  consider "?captures \<noteq> []" | "?captures = []" "?kingMoves \<noteq> []"
    | "?captures = []" "?kingMoves = []" by blast
  then show ?thesis
  proof cases
    case 1
    from elementAt_random [OF assms(1,2) 1] 1 show ?thesis
      by (auto simp: getBasicMove_def Let_def)
  next
    case 2
    from elementAt_random [OF assms(1,2) 2(2)] 2 show ?thesis
      by (auto simp: getBasicMove_def Let_def)
  next
    case 3
    with getRandomMove_member [OF assms] show ?thesis
      by (simp add: getBasicMove_def Let_def)
  qed
qed

lemma getIntermediateMove_member:
  assumes "0 \<le> rnd" and "rnd < 1" and "moves \<noteq> []"
  shows "\<exists>m. getIntermediateMove board moves rnd = Some m \<and> m \<in> set moves"
proof -
  let ?scored = "map (\<lambda>move. (move, evaluateMove board move)) moves"
  let ?sorted = "sort_key (\<lambda>sm. - snd sm) ?scored"
  let ?top = "take (min 3 (length ?sorted)) ?sorted"
  from assms(3) have "?top \<noteq> []" by (cases moves) simp_all
  from elementAt_random [OF assms(1,2) this] obtain sm
    where sm: "elementAt ?top (randomIndex rnd ?top) = Some sm" "sm \<in> set ?top" by blast
  from sm(2) have "sm \<in> set ?sorted" by (rule in_set_takeD)
  then have "fst sm \<in> set moves" by auto
  with sm(1) show ?thesis by (simp add: getIntermediateMove_def Let_def)
qed

lemma bestMoveLoop_member:
  assumes "\<forall>m\<in>set ms. \<exists>b'. makeMove board m = Some b' \<and> wf_board b'"
  shows "\<exists>res. bestMoveLoop board depth ms bestMove bestScore = Some res
           \<and> (res = bestMove \<or> (\<exists>m\<in>set ms. res = Some m))"
  using assms
proof (induction ms arbitrary: bestMove bestScore)
  case Nil
  then show ?case by simp
next
  case (Cons m ms)
  from Cons.prems obtain b' where b': "makeMove board m = Some b'" "wf_board b'" by auto
  from minimax_returns [OF b'(2), of "depth - 1" False] obtain score
    where s: "minimax (depth - 1) b' NegInfinity PosInfinity False = Some score" by blast
  from Cons.prems have rest: "\<forall>m\<in>set ms. \<exists>b'. makeMove board m = Some b' \<and> wf_board b'" by simp
  show ?case
  proof (cases "score > bestScore")
    case True
    with Cons.IH [OF rest, of "Some m" score] b' s show ?thesis by auto
  next
    case False
    with Cons.IH [OF rest, of bestMove bestScore] b' s show ?thesis by auto
  qed
qed

lemma getAdvancedMove_member:
  assumes "wf_board board" and "getAllValidMoves board side = Some moves" and "moves \<noteq> []"
  shows "\<exists>m. getAdvancedMove board moves difficulty = Some (Some m) \<and> m \<in> set moves"
proof -
  from assms(3) have first: "elementAt moves 0 = Some (hd moves)" "hd moves \<in> set moves"
    by (simp_all add: elementAt_def hd_conv_nth)
  from bestMoveLoop_member [OF children_wf [OF assms(1,2)]] first show ?thesis
    unfolding getAdvancedMove_def Let_def by metis
qed

text \<open>
  Claim C9. On every 8x8 grid, for every integer rating and every number \<open>rnd\<close> in \<open>[0, 1)\<close>
  returned by \<^verbatim>\<open>Math.random\<close>, \<^verbatim>\<open>getBotMove\<close> raises nothing; its result is absent exactly when
  \<^verbatim>\<open>getAllValidMoves(board, 'black')\<close> is empty, and a move it returns is one of that list.
\<close>

theorem getBotMove_absent_iff:
  assumes "wf_board board" and "0 \<le> rnd" and "rnd < 1"
  shows "\<exists>moves result. getAllValidMoves board Black = Some moves
           \<and> getBotMove board difficulty rnd = Some result
           \<and> (result = None \<longleftrightarrow> moves = [])
           \<and> (\<forall>m. result = Some m \<longrightarrow> m \<in> set moves)"
proof -
  from getAllValidMoves_total [OF assms(1)] obtain moves
    where moves: "getAllValidMoves board Black = Some moves" by blast
  show ?thesis
  proof (cases "moves = []")
    case True
    with moves show ?thesis by (simp add: getBotMove_def)
  next
    case False
    have "\<exists>m. getBotMove board difficulty rnd = Some (Some m) \<and> m \<in> set moves"
    proof -
      consider "difficulty < 400" | "400 \<le> difficulty" "difficulty < 800"
        | "800 \<le> difficulty" "difficulty < 1200" | "1200 \<le> difficulty" by linarith
      then show ?thesis
      proof cases
        case 1
        with getRandomMove_member [OF assms(2,3) False] moves False show ?thesis
          by (auto simp: getBotMove_def)
      next
        case 2
        with getBasicMove_member [OF assms(2,3) False, of board] moves False show ?thesis
          by (auto simp: getBotMove_def)
      next
        case 3
        with getIntermediateMove_member [OF assms(2,3) False, of board] moves False show ?thesis
          by (auto simp: getBotMove_def)
      next
        case 4
        with getAdvancedMove_member [OF assms(1) moves False, of difficulty] moves False
        show ?thesis by (auto simp: getBotMove_def)
      qed
    qed
    with moves False show ?thesis by auto
  qed
qed

text \<open>The initial board at rating 1300 with \<open>rnd = 1/2\<close>.\<close>

theorem getBotMove_absent_iff_witness:
  "wf_board createInitialBoard \<and> (0::real) \<le> 1 / 2 \<and> (1::real) / 2 < 1
   \<and> (\<exists>moves result. getAllValidMoves createInitialBoard Black = Some moves
         \<and> getBotMove createInitialBoard 1300 (1 / 2) = Some result
         \<and> (result = None \<longleftrightarrow> moves = [])
         \<and> (\<forall>m. result = Some m \<longrightarrow> m \<in> set moves))"
proof -
  have r: "(0::real) \<le> 1 / 2" "(1::real) / 2 < 1" by simp_all
  from getBotMove_absent_iff [OF wf_createInitialBoard r, of 1300] wf_createInitialBoard r
  show ?thesis by blast
qed

end
